theory Spec2Isabelle
  imports
    Complex_Main
    "HOL-Library.Multiset"
    "HOL-Library.Sublist"
    "HOL-Library.Char_ord"
    "HOL-Library.List_Lexorder"
    "HOL-Library.Product_Lexorder"
begin

section \<open>Telemetry pipeline of \<open>process_data.py\<close>: values and frames\<close>

text \<open>
  The script works on pandas data frames. A cell is a missing value (\<open>NaN\<close>, also
  standing for \<open>NaT\<close> and \<open>None\<close>), a text, a number or a UTC instant. Numbers are
  exact rationals here: IEEE rounding and the infinities of \<open>float64\<close> are not
  part of this development. An instant is counted in seconds since the epoch.
\<close>

datatype val = NaN | Str string | Num rat | Time rat

text \<open>
  A row is the list of its labelled cells in column order; a label may occur twice
  (pandas allows duplicated column labels). A frame keeps its column labels next to its
  rows, since a frame without rows still has columns.
\<close>

type_synonym row = "(string \<times> val) list"

record frame =
  columns :: "string list"
  rows :: "row list"

datatype error =
  ValueError | EmptyDataError | ParserError | StopIteration | DuplicateColumn | KeyError

subsection \<open>Configuration\<close>

definition CHUNK_SIZE :: nat where
  "CHUNK_SIZE = 100000"

definition GAP_THRESHOLD_SEC :: rat where
  "GAP_THRESHOLD_SEC = 300"

text \<open>
  \<open>REQUIRED_COLUMNS\<close> is a Python set; the order below is the order of the source
  text. The order in which a set is visited only decides where back-filled columns
  are appended.
\<close>

definition REQUIRED_COLUMNS :: "string list" where
  "REQUIRED_COLUMNS =
    [''trip_id'', ''timestamp'', ''speed_kmph'', ''battery_voltage'',
     ''battery_current'', ''soc_percent'', ''motor_temp_c'', ''cell_temp_c'']"

definition VALID_RANGES :: "(string \<times> rat \<times> rat) list" where
  "VALID_RANGES =
    [(''speed_kmph'', 0, 250),
     (''battery_voltage'', 200, 1000),
     (''battery_current'', - 500, 500),
     (''soc_percent'', 0, 100),
     (''motor_temp_c'', - 40, 200),
     (''cell_temp_c'', - 40, 100)]"

definition COLUMN_ALIASES :: "(string \<times> string list) list" where
  "COLUMN_ALIASES =
    [(''trip_id'', [''trip_id'', ''tripid'', ''vehicle_id'', ''vehicleid'']),
     (''timestamp'', [''timestamp'', ''time'', ''utc_timestamp'', ''datetime'']),
     (''speed_kmph'', [''speed_kmph'', ''speed'', ''vehicle_speed'']),
     (''battery_voltage'', [''battery_voltage'', ''batteryvoltage'', ''voltage'']),
     (''battery_current'', [''battery_current'', ''batterycurrent'', ''current'']),
     (''soc_percent'', [''soc_percent'', ''soc'', ''state_of_charge'']),
     (''motor_temp_c'', [''motor_temp_c'', ''motortemp'', ''motor_temperature'']),
     (''cell_temp_c'', [''cell_temp_c'', ''celltemp'', ''cell_temperature''])]"

subsection \<open>Cells of a row\<close>

definition get_val :: "row \<Rightarrow> string \<Rightarrow> val" where
  "get_val r c = (case map_of r c of None \<Rightarrow> NaN | Some v \<Rightarrow> v)"

text \<open>
  Storing under a label overwrites every cell that carries the label and appends a
  new cell when there is none, as \<open>df[c] = ...\<close> does for a column.
\<close>

definition set_cell :: "string \<Rightarrow> val \<Rightarrow> row \<Rightarrow> row" where
  "set_cell c v r =
    (if c \<in> set (map fst r)
     then map (\<lambda>(k, x). (k, if k = c then v else x)) r
     else r @ [(c, v)])"

subsection \<open>Header normalisation: \<open>normalize_columns\<close>\<close>

text \<open>
  \<open>str.strip()\<close> removes leading and trailing white space and \<open>str.lower()\<close>
  lowers the letters; the model covers the ASCII range (a \<open>char\<close> is a byte).
\<close>

definition is_space :: "char \<Rightarrow> bool" where
  "is_space c = (c \<in> set [CHR '' '', CHR 0x09, CHR 0x0A, CHR 0x0B, CHR 0x0C, CHR 0x0D,
                            CHR 0x1C, CHR 0x1D, CHR 0x1E, CHR 0x1F])"

definition strip :: "string \<Rightarrow> string" where
  "strip s = rev (dropWhile is_space (rev (dropWhile is_space s)))"

definition lower_char :: "char \<Rightarrow> char" where
  "lower_char c =
    (case map_of (zip ''ABCDEFGHIJKLMNOPQRSTUVWXYZ'' ''abcdefghijklmnopqrstuvwxyz'') c of
       None \<Rightarrow> c
     | Some l \<Rightarrow> l)"

definition lower :: "string \<Rightarrow> string" where
  "lower s = map lower_char s"

definition rename_columns :: "(string \<Rightarrow> string) \<Rightarrow> frame \<Rightarrow> frame" where
  "rename_columns f df =
    \<lparr>columns = map f (columns df),
     rows = map (map (\<lambda>(k, v). (f k, v))) (rows df)\<rparr>"

definition normalize_columns :: "frame \<Rightarrow> frame" where
  "normalize_columns df = rename_columns (\<lambda>c. lower (strip c)) df"

subsection \<open>Alias resolution: \<open>resolve_columns\<close>\<close>

text \<open>
  For every canonical name, in the order of the table, the columns are scanned in
  header order and the first one found among the aliases is entered into the
  renaming dictionary; the inner loop stops there.
\<close>

definition rename_map :: "string list \<Rightarrow> (string \<rightharpoonup> string)" where
  "rename_map cols =
    fold (\<lambda>(canonical, aliases) m.
            case find (\<lambda>col. col \<in> set aliases) cols of
              None \<Rightarrow> m
            | Some col \<Rightarrow> m(col \<mapsto> canonical))
         COLUMN_ALIASES Map.empty"

definition rename :: "(string \<rightharpoonup> string) \<Rightarrow> string \<Rightarrow> string" where
  "rename m c = (case m c of None \<Rightarrow> c | Some c' \<Rightarrow> c')"

definition resolve_columns :: "frame \<Rightarrow> frame" where
  "resolve_columns df = rename_columns (rename (rename_map (columns df))) df"

text \<open>The condition under which header order is irrelevant: no two different headers
  of the batch are aliases of the same canonical field.\<close>

definition unambiguous :: "string list \<Rightarrow> bool" where
  "unambiguous cols =
    list_all (\<lambda>(canonical, aliases).
                length (remdups (filter (\<lambda>col. col \<in> set aliases) cols)) \<le> 1)
             COLUMN_ALIASES"

subsection \<open>Series, masks and column assignment\<close>

text \<open>\<open>df[c]\<close>: the cells of column \<open>c\<close>, one per row.\<close>

definition series :: "frame \<Rightarrow> string \<Rightarrow> val list" where
  "series df c = map (\<lambda>r. get_val r c) (rows df)"

text \<open>\<open>df[c] = s\<close>: the column is overwritten in place, or appended when new.\<close>

definition add_column :: "string \<Rightarrow> string list \<Rightarrow> string list" where
  "add_column c cols = (if c \<in> set cols then cols else cols @ [c])"

definition assign :: "string \<Rightarrow> val list \<Rightarrow> frame \<Rightarrow> frame" where
  "assign c s df =
    \<lparr>columns = add_column c (columns df),
     rows = map2 (set_cell c) s (rows df)\<rparr>"

definition assign_scalar :: "string \<Rightarrow> val \<Rightarrow> frame \<Rightarrow> frame" where
  "assign_scalar c v df = assign c (replicate (length (rows df)) v) df"

definition isna :: "val list \<Rightarrow> bool list" where
  "isna s = map (\<lambda>v. v = NaN) s"

text \<open>\<open>Series.between(lo, hi)\<close> is inclusive at both ends and false on a missing value.\<close>

definition in_range :: "rat \<Rightarrow> rat \<Rightarrow> val \<Rightarrow> bool" where
  "in_range lo hi v = (case v of Num x \<Rightarrow> lo \<le> x \<and> x \<le> hi | _ \<Rightarrow> False)"

definition between :: "rat \<Rightarrow> rat \<Rightarrow> val list \<Rightarrow> bool list" where
  "between lo hi s = map (in_range lo hi) s"

definition invert :: "bool list \<Rightarrow> bool list" where
  "invert msk = map Not msk"

definition ne_str :: "val list \<Rightarrow> string \<Rightarrow> bool list" where
  "ne_str s t = map (\<lambda>v. v \<noteq> Str t) s"

text \<open>\<open>df.loc[mask, c] = v\<close>\<close>

definition loc_assign :: "bool list \<Rightarrow> string \<Rightarrow> val \<Rightarrow> frame \<Rightarrow> frame" where
  "loc_assign msk c v df =
    assign c (map2 (\<lambda>m x. if m then v else x) msk (series df c)) df"

text \<open>\<open>df.loc[mask, c] += t\<close> on a column of texts.\<close>

definition str_add :: "val \<Rightarrow> string \<Rightarrow> val" where
  "str_add v t = (case v of Str s \<Rightarrow> Str (s @ t) | _ \<Rightarrow> v)"

definition loc_add :: "bool list \<Rightarrow> string \<Rightarrow> string \<Rightarrow> frame \<Rightarrow> frame" where
  "loc_add msk c t df =
    assign c (map2 (\<lambda>m x. if m then str_add x t else x) msk (series df c)) df"

text \<open>\<open>df[mask]\<close>: the rows where the mask holds, in their order.\<close>

definition select :: "bool list \<Rightarrow> frame \<Rightarrow> frame" where
  "select msk df = df\<lparr>rows := map snd (filter fst (zip msk (rows df)))\<rparr>"

subsection \<open>The pandas parsers\<close>

text \<open>
  \<open>pd.read_csv\<close>, \<open>pd.to_datetime(..., errors="coerce", utc=True)\<close> and
  \<open>pd.to_numeric(..., errors="coerce")\<close> belong to the library, not to the
  repository. They are parameters of the model.

  \<^item> \<open>read_csv\<close> types the fields of a chunk column by column: what a field is
    delivered as depends on the other fields of its column in the chunk being read (a
    field \<open>007\<close> is the number 7 in a column of numerals and the text \<open>007\<close> next
    to a text). \<open>dtype_of\<close> is given the fields of the column in the chunk, then the
    field.
  \<^item> \<open>to_datetime\<close> settles on one format per call, from the series it is called on,
    and reads every cell of the series by that format. \<open>datetime_of\<close> is given the
    series of the call, then the cell.
  \<^item> \<open>to_numeric\<close> reads each cell on its own.

  A missing field or cell stays missing under all three.
\<close>

record pandas =
  dtype_of :: "val list \<Rightarrow> val \<Rightarrow> val"
  datetime_of :: "val list \<Rightarrow> val \<Rightarrow> rat option"
  number_of :: "val \<Rightarrow> rat option"

definition read_cell :: "pandas \<Rightarrow> val list \<Rightarrow> val \<Rightarrow> val" where
  "read_cell pd s v = (if v = NaN then NaN else dtype_of pd s v)"

definition datetime_cell :: "pandas \<Rightarrow> val list \<Rightarrow> val \<Rightarrow> val" where
  "datetime_cell pd s v =
    (if v = NaN then NaN
     else case datetime_of pd s v of None \<Rightarrow> NaN | Some t \<Rightarrow> Time t)"

definition numeric_cell :: "pandas \<Rightarrow> val \<Rightarrow> val" where
  "numeric_cell pd v =
    (if v = NaN then NaN
     else case number_of pd v of None \<Rightarrow> NaN | Some x \<Rightarrow> Num x)"

definition to_datetime :: "pandas \<Rightarrow> val list \<Rightarrow> val list" where
  "to_datetime pd s = map (datetime_cell pd s) s"

definition coerce_float :: "pandas \<Rightarrow> val list \<Rightarrow> val list" where
  "coerce_float pd s = map (numeric_cell pd) s"

text \<open>A library whose reader and whose \<open>to_datetime\<close> read every cell on its own,
  whatever the rest of its column.\<close>

definition cell_wise :: "(val \<Rightarrow> val) \<Rightarrow> (val \<Rightarrow> rat option) \<Rightarrow> (val \<Rightarrow> rat option) \<Rightarrow> pandas" where
  "cell_wise rd dt num = \<lparr>dtype_of = (\<lambda>s. rd), datetime_of = (\<lambda>s. dt), number_of = num\<rparr>"

subsection \<open>Schema detection: \<open>is_trip_level_schema\<close>\<close>

definition trip_level_signals :: "string list" where
  "trip_level_signals =
    [''duration_minutes'', ''distance_km'', ''speed_avg'', ''speed_max'',
     ''energy_consumed_kwh'']"

definition is_trip_level_schema :: "frame \<Rightarrow> bool" where
  "is_trip_level_schema df = list_ex (\<lambda>c. c \<in> set (columns df)) trip_level_signals"

subsection \<open>The validation loop of the time-series path\<close>

text \<open>Each block of the loop body is one definition, in the order of the source.\<close>

text \<open>\<open>if col not in chunk.columns: chunk[col] = np.nan\<close>\<close>

definition backfill :: "string \<Rightarrow> frame \<Rightarrow> frame" where
  "backfill col chunk =
    (if col \<notin> set (columns chunk) then assign_scalar col NaN chunk else chunk)"

text \<open>\<open>chunk["timestamp"] = pd.to_datetime(chunk["timestamp"], errors="coerce", utc=True)\<close>\<close>

definition parse_timestamps :: "pandas \<Rightarrow> frame \<Rightarrow> frame" where
  "parse_timestamps pd chunk =
    assign ''timestamp'' (to_datetime pd (series chunk ''timestamp'')) chunk"

text \<open>\<open>chunk[col] = coerce_float(chunk[col])\<close>\<close>

definition coerce_column :: "pandas \<Rightarrow> string \<times> rat \<times> rat \<Rightarrow> frame \<Rightarrow> frame" where
  "coerce_column pd = (\<lambda>(col, lo, hi) chunk.
     assign col (coerce_float pd (series chunk col)) chunk)"

text \<open>\<open>chunk.loc[chunk[col].isna(), "rejection_reasons"] += tag\<close>\<close>

definition reject_missing :: "string \<Rightarrow> string \<Rightarrow> frame \<Rightarrow> frame" where
  "reject_missing col tag chunk =
    loc_add (isna (series chunk col)) ''rejection_reasons'' tag chunk"

text \<open>\<open>f"|{col}_out_of_range"\<close>\<close>

definition salvage_tag :: "string \<Rightarrow> string" where
  "salvage_tag col = ''|'' @ col @ ''_out_of_range''"

text \<open>One round of the partial-salvage loop: the mask is taken once, before the column
  is overwritten, and used for both assignments.\<close>

definition salvage :: "string \<times> rat \<times> rat \<Rightarrow> frame \<Rightarrow> frame" where
  "salvage = (\<lambda>(col, lo, hi) chunk.
     let invalid = invert (between lo hi (series chunk col));
         chunk = loc_assign invalid col NaN chunk
     in loc_add invalid ''salvage_notes'' (salvage_tag col) chunk)"

text \<open>\<open>chunk[list(VALID_RANGES.keys())].isna().all(axis=1)\<close>\<close>

definition all_sensors_na :: "frame \<Rightarrow> bool list" where
  "all_sensors_na chunk =
    map (\<lambda>r. list_all (\<lambda>(col, lo, hi). get_val r col = NaN) VALID_RANGES) (rows chunk)"

definition reject_all_invalid :: "frame \<Rightarrow> frame" where
  "reject_all_invalid chunk =
    (let all_nan = all_sensors_na chunk
     in loc_add all_nan ''rejection_reasons'' ''|all_sensors_invalid'' chunk)"

text \<open>The final classification and the split of the chunk into its two parts.\<close>

record validated =
  classified :: frame
  valid_part :: frame
  rejected_part :: frame

definition final_classification :: "frame \<Rightarrow> validated" where
  "final_classification chunk0 =
    (let rejected_mask = ne_str (series chunk0 ''rejection_reasons'') [];
         chunk = loc_assign rejected_mask ''validation_status'' (Str ''rejected'') chunk0
     in \<lparr>classified = chunk,
         valid_part = select (invert rejected_mask) chunk,
         rejected_part = select rejected_mask chunk\<rparr>)"

text \<open>
  The labels the loop assigns to, and those among them whose column it also reads.
  When a label that is read occurs twice among the resolved columns, selecting it yields
  a two-dimensional frame instead of a series, on which \<open>to_datetime\<close>, \<open>to_numeric\<close>
  and boolean \<open>.loc\<close> selection raise; the model stops with \<open>DuplicateColumn\<close> at
  that chunk. \<open>validation_status\<close> is only assigned to: when it occurs twice, every
  column of that label is overwritten and the loop goes on.
\<close>

definition addressed :: "string list" where
  "addressed =
    REQUIRED_COLUMNS @ [''rejection_reasons'', ''salvage_notes'', ''validation_status'']"

definition selected :: "string list" where
  "selected = REQUIRED_COLUMNS @ [''rejection_reasons'', ''salvage_notes'']"

definition duplicated :: "string list \<Rightarrow> string list \<Rightarrow> bool" where
  "duplicated cols names = list_ex (\<lambda>c. 1 < length (filter (\<lambda>k. k = c) cols)) names"

definition validate_chunk :: "pandas \<Rightarrow> frame \<Rightarrow> error + validated" where
  "validate_chunk pd chunk0 =
    (let chunk = normalize_columns chunk0;
         chunk = resolve_columns chunk
     in if duplicated (columns chunk) selected then Inl DuplicateColumn
     else
      let chunk = fold backfill REQUIRED_COLUMNS chunk;
          chunk = assign_scalar ''rejection_reasons'' (Str []) chunk;
          chunk = assign_scalar ''salvage_notes'' (Str []) chunk;
          chunk = assign_scalar ''validation_status'' (Str ''valid'') chunk;
          chunk = parse_timestamps pd chunk;
          chunk = fold (coerce_column pd) VALID_RANGES chunk;
          chunk = reject_missing ''trip_id'' ''|missing_trip_id'' chunk;
          chunk = reject_missing ''timestamp'' ''|invalid_timestamp'' chunk;
          chunk = fold salvage VALID_RANGES chunk;
          chunk = reject_all_invalid chunk
      in Inr (final_classification chunk))"

fun validate_all :: "pandas \<Rightarrow> frame list \<Rightarrow> error + (frame list \<times> frame list)" where
  "validate_all pd [] = Inr ([], [])"
| "validate_all pd (chunk # chunks) =
    (case validate_chunk pd chunk of
       Inl e \<Rightarrow> Inl e
     | Inr v \<Rightarrow>
        (case validate_all pd chunks of
           Inl e \<Rightarrow> Inl e
         | Inr (validated_rows, rejected_rows) \<Rightarrow>
             Inr (valid_part v # validated_rows, rejected_part v # rejected_rows)))"

text \<open>
  \<open>pd.concat(frames, ignore_index=True) if frames else pd.DataFrame()\<close>. All chunks of
  one file carry the same labels, so the labels of the first frame are those of the
  result.
\<close>

definition concat_frames :: "frame list \<Rightarrow> frame" where
  "concat_frames fs =
    (case fs of
       [] \<Rightarrow> \<lparr>columns = [], rows = []\<rparr>
     | f # _ \<Rightarrow> \<lparr>columns = columns f, rows = concat (map rows fs)\<rparr>)"

subsection \<open>Trip aggregation of the time-series path\<close>

text \<open>\<open>DataFrame.empty\<close>: some axis has length zero.\<close>

definition frame_empty :: "frame \<Rightarrow> bool" where
  "frame_empty df = (columns df = [] \<or> rows df = [])"

text \<open>
  Keys for ordering cells: numbers, then instants, then texts, the missing value last
  (as \<open>sort_values\<close> places it). \<open>sort_key\<close> is a stable sort: rows with equal keys
  keep their order. The default sort of \<open>sort_values\<close> promises no order among rows
  with equal keys; in the aggregation that order can only show in \<open>distance_km\<close> of a
  trip in which a time stamp occurs twice.
\<close>

definition val_key :: "val \<Rightarrow> nat \<times> rat \<times> string" where
  "val_key v =
    (case v of
       Num x \<Rightarrow> (0, x, [])
     | Time t \<Rightarrow> (1, t, [])
     | Str s \<Rightarrow> (2, 0, s)
     | NaN \<Rightarrow> (3, 0, []))"

text \<open>\<open>df.groupby(c)\<close>: one group per key that is not missing, keys ascending, each
  group holding its rows in their order.\<close>

definition groupby :: "string \<Rightarrow> frame \<Rightarrow> (val \<times> frame) list" where
  "groupby c df =
    (let keys = sort_key val_key (remdups (filter (\<lambda>v. v \<noteq> NaN) (series df c)))
     in map (\<lambda>k. (k, select (map (\<lambda>v. v = k) (series df c)) df)) keys)"

definition sort_values :: "string \<Rightarrow> frame \<Rightarrow> frame" where
  "sort_values c df = df\<lparr>rows := sort_key (\<lambda>r. val_key (get_val r c)) (rows df)\<rparr>"

text \<open>\<open>s.diff().dt.total_seconds()\<close>: each instant minus the one before it, in seconds;
  the first cell has no predecessor.\<close>

definition delta :: "val \<Rightarrow> val \<Rightarrow> val" where
  "delta later earlier =
    (case (later, earlier) of (Time y, Time x) \<Rightarrow> Num (y - x) | _ \<Rightarrow> NaN)"

definition diff_seconds :: "val list \<Rightarrow> val list" where
  "diff_seconds s = (case s of [] \<Rightarrow> [] | v # vs \<Rightarrow> NaN # map2 delta vs s)"

definition clip_lower :: "rat \<Rightarrow> val list \<Rightarrow> val list" where
  "clip_lower lo s = map (\<lambda>v. case v of Num x \<Rightarrow> Num (max lo x) | _ \<Rightarrow> v) s"

text \<open>\<open>s > t\<close> is false on a missing value.\<close>

definition gt :: "val list \<Rightarrow> rat \<Rightarrow> bool list" where
  "gt s t = map (\<lambda>v. case v of Num x \<Rightarrow> t < x | _ \<Rightarrow> False) s"

definition count_true :: "bool list \<Rightarrow> nat" where
  "count_true msk = length (filter (\<lambda>b. b) msk)"

definition fillna :: "rat \<Rightarrow> val list \<Rightarrow> val list" where
  "fillna z s = map (\<lambda>v. if v = NaN then Num z else v) s"

definition mul :: "val list \<Rightarrow> val list \<Rightarrow> val list" where
  "mul s t = map2 (\<lambda>a b. case (a, b) of (Num x, Num y) \<Rightarrow> Num (x * y) | _ \<Rightarrow> NaN) s t"

definition div_scalar :: "val list \<Rightarrow> rat \<Rightarrow> val list" where
  "div_scalar s d = map (\<lambda>v. case v of Num x \<Rightarrow> Num (x / d) | _ \<Rightarrow> v) s"

text \<open>The reductions skip missing values; the sum of nothing is zero, the maximum, minimum
  and mean of nothing are missing.\<close>

definition nums :: "val list \<Rightarrow> rat list" where
  "nums s = concat (map (\<lambda>v. case v of Num x \<Rightarrow> [x] | _ \<Rightarrow> []) s)"

definition sum_skipna :: "val list \<Rightarrow> rat" where
  "sum_skipna s = sum_list (nums s)"

definition max_skipna :: "val list \<Rightarrow> val" where
  "max_skipna s = (case nums s of [] \<Rightarrow> NaN | x # xs \<Rightarrow> Num (fold max xs x))"

definition min_skipna :: "val list \<Rightarrow> val" where
  "min_skipna s = (case nums s of [] \<Rightarrow> NaN | x # xs \<Rightarrow> Num (fold min xs x))"

definition mean_skipna :: "val list \<Rightarrow> val" where
  "mean_skipna s =
    (case nums s of [] \<Rightarrow> NaN | x # xs \<Rightarrow> Num (sum_list (x # xs) / of_nat (length (x # xs))))"

text \<open>
  The body of the loop over the groups. \<open>dt_sec\<close> and \<open>is_gap\<close> are columns of the
  group in the source; they are only read back, and are kept as series here.
\<close>

definition trip_metrics :: "val \<Rightarrow> frame \<Rightarrow> row" where
  "trip_metrics trip_id g0 =
    (let g = sort_values ''timestamp'' g0;
         dt_sec = clip_lower 0 (diff_seconds (series g ''timestamp''));
         is_gap = gt dt_sec GAP_THRESHOLD_SEC;
         duration_sec = sum_skipna dt_sec;
         distance_km =
           sum_skipna (div_scalar (mul (fillna 0 (series g ''speed_kmph'')) (fillna 0 dt_sec)) 3600)
     in [(''trip_id'', trip_id),
         (''rows'', Num (of_nat (length (rows g)))),
         (''duration_minutes'', Num (duration_sec / 60)),
         (''gap_count'', Num (of_nat (count_true is_gap))),
         (''max_speed'', max_skipna (series g ''speed_kmph'')),
         (''avg_speed'', mean_skipna (series g ''speed_kmph'')),
         (''distance_km'', Num distance_km),
         (''max_motor_temp'', max_skipna (series g ''motor_temp_c'')),
         (''max_cell_temp'', max_skipna (series g ''cell_temp_c'')),
         (''min_battery_voltage'', min_skipna (series g ''battery_voltage'')),
         (''max_current'', max_skipna (series g ''battery_current''))])"

definition aggregate :: "frame \<Rightarrow> row list" where
  "aggregate cleaned_df =
    (if \<not> frame_empty cleaned_df
     then map (\<lambda>(trip_id, g). trip_metrics trip_id g) (groupby ''trip_id'' cleaned_df)
     else [])"

text \<open>\<open>pd.DataFrame(records)\<close> for a list of dictionaries with the same keys: the keys
  are the columns; an empty list gives a frame without columns.\<close>

definition DataFrame :: "row list \<Rightarrow> frame" where
  "DataFrame records =
    \<lparr>columns = (case records of [] \<Rightarrow> [] | d # _ \<Rightarrow> map fst d), rows = records\<rparr>"

record outputs =
  cleaned_telematics :: frame
  rejected_telematics :: "frame option"
  trip_metrics_csv :: frame

definition time_series_path :: "pandas \<Rightarrow> frame list \<Rightarrow> error + outputs" where
  "time_series_path pd chunks =
    (case validate_all pd chunks of
       Inl e \<Rightarrow> Inl e
     | Inr (validated_rows, rejected_rows) \<Rightarrow>
        (let cleaned_df = concat_frames validated_rows;
             rejected_df = concat_frames rejected_rows;
             final_metrics_df = DataFrame (aggregate cleaned_df)
         in Inr \<lparr>cleaned_telematics = cleaned_df,
                 rejected_telematics = Some rejected_df,
                 trip_metrics_csv = final_metrics_df\<rparr>))"

subsection \<open>The trip-level path\<close>

text \<open>\<open>df.get(c)\<close>: the column, or \<open>None\<close> when the frame has none of that name.\<close>

definition df_get :: "frame \<Rightarrow> string \<Rightarrow> val list option" where
  "df_get df c = (if c \<in> set (columns df) then Some (series df c) else None)"

text \<open>\<open>pd.DataFrame({name: column, ...})\<close> over an index of \<open>n\<close> rows: a \<open>None\<close> in place
  of a column is spread over all rows.\<close>

definition DataFrame_of_columns :: "nat \<Rightarrow> (string \<times> val list option) list \<Rightarrow> frame" where
  "DataFrame_of_columns n cs =
    \<lparr>columns = map fst cs,
     rows = map (\<lambda>i. map (\<lambda>(name, s). (name, case s of None \<Rightarrow> NaN | Some vs \<Rightarrow> vs ! i)) cs)
              [0..<n]\<rparr>"

definition notna :: "val list \<Rightarrow> bool list" where
  "notna s = map (\<lambda>v. v \<noteq> NaN) s"

text \<open>The columns the trip-level path reads by name; as in the validation loop, a label
  among them that occurs twice stops the run.\<close>

definition trip_level_reads :: "string list" where
  "trip_level_reads =
    [''trip_id'', ''duration_minutes'', ''speed_avg'', ''distance_km'', ''speed_max'',
     ''motor_temp_max'', ''cell_temp_max'', ''energy_consumed_kwh'']"

definition trip_level_path :: "frame \<Rightarrow> frame list \<Rightarrow> error + outputs" where
  "trip_level_path first_chunk reader =
    (let df = concat_frames (first_chunk # map normalize_columns reader);
         df = resolve_columns df
     in if ''trip_id'' \<notin> set (columns df) then Inl KeyError
        else if duplicated (columns df) trip_level_reads then Inl DuplicateColumn
        else
         let df = select (notna (series df ''trip_id'')) df;
             trip_metrics_df = DataFrame_of_columns (length (rows df))
               [(''trip_id'', Some (series df ''trip_id'')),
                (''duration_minutes'', df_get df ''duration_minutes''),
                (''avg_speed'', df_get df ''speed_avg''),
                (''distance_km'', df_get df ''distance_km''),
                (''max_speed'', df_get df ''speed_max''),
                (''max_motor_temp'', df_get df ''motor_temp_max''),
                (''max_cell_temp'', df_get df ''cell_temp_max''),
                (''energy_consumed_kwh'', df_get df ''energy_consumed_kwh'')]
         in Inr \<lparr>cleaned_telematics = df,
                 rejected_telematics = None,
                 trip_metrics_csv = trip_metrics_df\<rparr>)"

subsection \<open>Reading the file and choosing the path\<close>

text \<open>
  The file is a header and its data lines, each the list of its fields: an empty field is
  \<open>NaN\<close>, any other field is given as a cell and typed by the reader (\<open>dtype_of\<close>).
  The header holds the column names as the reader delivers them; a file without a header
  line has no columns to parse. Blank lines are skipped by the reader and are not among
  the data lines.
\<close>

definition line_row :: "string list \<Rightarrow> val list \<Rightarrow> row" where
  "line_row header l = zip header (l @ replicate (length header - length l) NaN)"

definition mk_frame :: "string list \<Rightarrow> val list list \<Rightarrow> frame" where
  "mk_frame header lines = \<lparr>columns = header, rows = map (line_row header) lines\<rparr>"

text \<open>A line that ends early is filled up with missing fields.\<close>

definition field :: "val list \<Rightarrow> nat \<Rightarrow> val" where
  "field l i = (if i < length l then l ! i else NaN)"

text \<open>
  When the first data line has more fields than the header has names, the reader takes
  the surplus leading fields of every line as the index of the frame; the names of the
  header then belong to the fields after them. The script never writes the index.
\<close>

definition leading :: "string list \<Rightarrow> val list list \<Rightarrow> nat" where
  "leading header lines = (case lines of [] \<Rightarrow> 0 | l # _ \<Rightarrow> length l - length header)"

text \<open>One chunk: the fields of its lines under the header, each column typed over the
  lines of this chunk.\<close>

definition read_chunk :: "pandas \<Rightarrow> string list \<Rightarrow> nat \<Rightarrow> val list list \<Rightarrow> frame" where
  "read_chunk pd header k lines =
    mk_frame header
      (map (\<lambda>l. map (\<lambda>i. read_cell pd (map (\<lambda>l'. field l' (k + i)) lines) (field l (k + i)))
                    [0..<length header])
           lines)"

fun chunks_of :: "nat \<Rightarrow> 'a list \<Rightarrow> 'a list list" where
  "chunks_of n xs =
    (if n = 0 \<or> length xs \<le> n then [xs] else take n xs # chunks_of n (drop n xs))"

declare chunks_of.simps [simp del]

text \<open>
  \<open>read_csv\<close> with a chunk size hands out the lines in consecutive chunks under the
  same header; a file without data lines gives one chunk without rows. A chunk size of
  zero is refused, and so is a line with more fields than the header and the index take.
\<close>

definition read_csv :: "pandas \<Rightarrow> string list \<Rightarrow> val list list \<Rightarrow> nat \<Rightarrow> error + frame list" where
  "read_csv pd header lines chunksize =
    (if chunksize = 0 then Inl ValueError
     else if header = [] then Inl EmptyDataError
     else
      let k = leading header lines
      in if list_ex (\<lambda>l. length header + k < length l) lines then Inl ParserError
         else Inr (map (read_chunk pd header k) (chunks_of chunksize lines)))"

text \<open>The script from the first read to the written files; the chunk size is the
  constant \<open>CHUNK_SIZE\<close> in the source and a parameter here.\<close>

definition process_data :: "pandas \<Rightarrow> string list \<Rightarrow> val list list \<Rightarrow> nat \<Rightarrow> error + outputs" where
  "process_data pd header lines chunksize =
    (case read_csv pd header lines chunksize of
       Inl e \<Rightarrow> Inl e
     | Inr reader \<Rightarrow>
        (case reader of
           [] \<Rightarrow> Inl StopIteration
         | chunk # rest \<Rightarrow>
            (let first_chunk = normalize_columns chunk
             in if is_trip_level_schema first_chunk
                then trip_level_path first_chunk rest
                else time_series_path pd (first_chunk # rest))))"

subsection \<open>The loop body, row by row\<close>

text \<open>
  Every statement of the validation loop acts on each row separately, once the series
  that \<open>to_datetime\<close> is called on is fixed. The functions below are the statements
  read on one row; \<open>classify_row\<close> is their composition in the order of the loop body,
  and is shown further down to give the rows that \<open>validate_chunk\<close> computes.
\<close>

definition row_backfill :: "string list \<Rightarrow> string \<Rightarrow> row \<Rightarrow> row" where
  "row_backfill cols col r = (if col \<notin> set cols then set_cell col NaN r else r)"

definition row_coerce :: "pandas \<Rightarrow> string \<times> rat \<times> rat \<Rightarrow> row \<Rightarrow> row" where
  "row_coerce pd = (\<lambda>(col, lo, hi) r. set_cell col (numeric_cell pd (get_val r col)) r)"

definition row_add :: "bool \<Rightarrow> string \<Rightarrow> string \<Rightarrow> row \<Rightarrow> row" where
  "row_add b c t r = set_cell c (if b then str_add (get_val r c) t else get_val r c) r"

definition row_salvage :: "string \<times> rat \<times> rat \<Rightarrow> row \<Rightarrow> row" where
  "row_salvage = (\<lambda>(col, lo, hi) r.
     let invalid = \<not> in_range lo hi (get_val r col);
         r = set_cell col (if invalid then NaN else get_val r col) r
     in row_add invalid ''salvage_notes'' (salvage_tag col) r)"

definition row_status :: "row \<Rightarrow> row" where
  "row_status r =
    set_cell ''validation_status''
      (if get_val r ''rejection_reasons'' \<noteq> Str [] then Str ''rejected''
       else get_val r ''validation_status'') r"

definition is_rejected :: "row \<Rightarrow> bool" where
  "is_rejected r = (get_val r ''rejection_reasons'' \<noteq> Str [])"

text \<open>The series that \<open>to_datetime\<close> is called on: the time stamps of the rows after
  the back-fill.\<close>

definition timestamps_of :: "frame \<Rightarrow> val list" where
  "timestamps_of chunk =
    map (\<lambda>r. get_val (fold (row_backfill (columns chunk)) REQUIRED_COLUMNS r) ''timestamp'')
      (rows chunk)"

definition classify_row :: "pandas \<Rightarrow> val list \<Rightarrow> string list \<Rightarrow> row \<Rightarrow> row" where
  "classify_row pd ts cols r0 =
    (let r = fold (row_backfill cols) REQUIRED_COLUMNS r0;
         r = set_cell ''rejection_reasons'' (Str []) r;
         r = set_cell ''salvage_notes'' (Str []) r;
         r = set_cell ''validation_status'' (Str ''valid'') r;
         r = set_cell ''timestamp'' (datetime_cell pd ts (get_val r ''timestamp'')) r;
         r = fold (row_coerce pd) VALID_RANGES r;
         r = row_add (get_val r ''trip_id'' = NaN) ''rejection_reasons'' ''|missing_trip_id'' r;
         r = row_add (get_val r ''timestamp'' = NaN) ''rejection_reasons'' ''|invalid_timestamp'' r;
         r = fold row_salvage VALID_RANGES r;
         r = row_add (list_all (\<lambda>(col, lo, hi). get_val r col = NaN) VALID_RANGES)
               ''rejection_reasons'' ''|all_sensors_invalid'' r
     in row_status r)"

definition classify_columns :: "string list \<Rightarrow> string list" where
  "classify_columns cols = fold add_column addressed cols"

text \<open>A frame as the reader delivers it: every row carries exactly the labels of the
  frame, in their order.\<close>

definition well_formed :: "frame \<Rightarrow> bool" where
  "well_formed df = list_all (\<lambda>r. map fst r = columns df) (rows df)"

subsection \<open>The fields of a classified row\<close>

definition notes_of :: "(string \<times> rat \<times> rat) list \<Rightarrow> row \<Rightarrow> string" where
  "notes_of xs r =
    concat (map (\<lambda>(col, lo, hi). if in_range lo hi (get_val r col) then [] else salvage_tag col) xs)"

text \<open>What a required column that the frame lacks reads as.\<close>

definition absent_is_na :: "string list \<Rightarrow> row \<Rightarrow> bool" where
  "absent_is_na cols r = list_all (\<lambda>c. c \<in> set cols \<or> get_val r c = NaN) REQUIRED_COLUMNS"

definition salvaged :: "pandas \<Rightarrow> rat \<Rightarrow> rat \<Rightarrow> val \<Rightarrow> val" where
  "salvaged pd lo hi v =
    (if in_range lo hi (numeric_cell pd v) then numeric_cell pd v else NaN)"

definition expected_notes :: "pandas \<Rightarrow> row \<Rightarrow> string" where
  "expected_notes pd r =
    concat (map (\<lambda>(col, lo, hi).
                  if in_range lo hi (numeric_cell pd (get_val r col)) then []
                  else salvage_tag col) VALID_RANGES)"

definition expected_reasons :: "pandas \<Rightarrow> val list \<Rightarrow> row \<Rightarrow> string" where
  "expected_reasons pd ts r =
    (if get_val r ''trip_id'' = NaN then ''|missing_trip_id'' else [])
    @ (if datetime_cell pd ts (get_val r ''timestamp'') = NaN then ''|invalid_timestamp'' else [])
    @ (if list_all (\<lambda>(col, lo, hi). salvaged pd lo hi (get_val r col) = NaN) VALID_RANGES
       then ''|all_sensors_invalid'' else [])"

text \<open>The chunk as the loop sees it after its first two statements.\<close>

definition resolved :: "frame \<Rightarrow> frame" where
  "resolved chunk = resolve_columns (normalize_columns chunk)"

subsection \<open>Runs and their trip metrics\<close>

text \<open>The run on the whole file as one chunk.\<close>

definition single_chunk :: "pandas \<Rightarrow> string list \<Rightarrow> val list list \<Rightarrow> error + outputs" where
  "single_chunk pd header lines =
    (if header = [] then Inl EmptyDataError
     else if list_ex (\<lambda>l. length header + leading header lines < length l) lines
     then Inl ParserError
     else
      let first_chunk = normalize_columns (read_chunk pd header (leading header lines) lines)
      in if is_trip_level_schema first_chunk
         then trip_level_path first_chunk []
         else time_series_path pd [first_chunk])"

text \<open>The input as the reader hands it out: the frames of the chunks, one below the
  other.\<close>

definition frame_read :: "pandas \<Rightarrow> string list \<Rightarrow> val list list \<Rightarrow> nat \<Rightarrow> frame" where
  "frame_read pd header lines chunksize =
    concat_frames (map (read_chunk pd header (leading header lines)) (chunks_of chunksize lines))"

text \<open>The trip metrics of a run, as a list of rows; none when the run stops.\<close>

definition metrics_rows :: "error + outputs \<Rightarrow> row list" where
  "metrics_rows res = (case res of Inl e \<Rightarrow> [] | Inr out \<Rightarrow> rows (trip_metrics_csv out))"

text \<open>The instants of a column of time stamps, missing cells left out.\<close>

definition instants :: "val list \<Rightarrow> rat list" where
  "instants s = concat (map (\<lambda>v. case v of Time t \<Rightarrow> [t] | _ \<Rightarrow> []) s)"

text \<open>The time stamp column of the rows of one trip.\<close>

definition trip_timestamps :: "frame \<Rightarrow> val \<Rightarrow> val list" where
  "trip_timestamps df k =
    series (select (map (\<lambda>v. v = k) (series df ''trip_id'')) df) ''timestamp''"

text \<open>
  The gap count in the words of the specification: the deltas between successive
  instants of the trip in ascending order, negative deltas clipped to zero, counted
  when they exceed the threshold strictly.
\<close>

definition successive_deltas :: "rat list \<Rightarrow> rat list" where
  "successive_deltas ts = map2 (\<lambda>earlier later. max 0 (later - earlier)) ts (tl ts)"

definition spec_gap_count :: "rat \<Rightarrow> rat list \<Rightarrow> nat" where
  "spec_gap_count threshold ts =
    length (filter (\<lambda>d. threshold < d) (successive_deltas (sort ts)))"

text \<open>Every row of the cleaned frame carries an instant.\<close>

definition has_instant :: "row \<Rightarrow> bool" where
  "has_instant r = (case get_val r ''timestamp'' of Time t \<Rightarrow> True | _ \<Rightarrow> False)"

text \<open>Projections of a run for the examples: whether it reaches the end, and the trip
  metrics frame and the cleaned frame it writes (a frame without columns when it stops
  before).\<close>

definition completes :: "error + outputs \<Rightarrow> bool" where
  "completes res = (case res of Inl e \<Rightarrow> False | Inr out \<Rightarrow> True)"

definition metrics_frame :: "error + outputs \<Rightarrow> frame" where
  "metrics_frame res =
    (case res of Inl e \<Rightarrow> \<lparr>columns = [], rows = []\<rparr> | Inr out \<Rightarrow> trip_metrics_csv out)"

definition cleaned_frame :: "error + outputs \<Rightarrow> frame" where
  "cleaned_frame res =
    (case res of Inl e \<Rightarrow> \<lparr>columns = [], rows = []\<rparr> | Inr out \<Rightarrow> cleaned_telematics out)"

text \<open>The schema test of the script, on the header of the file.\<close>

definition trip_level_input :: "string list \<Rightarrow> bool" where
  "trip_level_input header = is_trip_level_schema (normalize_columns (mk_frame header []))"

text \<open>The columns the reporting layer relies on.\<close>

definition contract_columns :: "string list" where
  "contract_columns = [''trip_id'', ''duration_minutes'', ''avg_speed'', ''distance_km'', ''max_speed'']"

text \<open>The column list of the metrics frame of the trip-level path, as the source
  writes it.\<close>

definition trip_level_metrics_columns :: "string list" where
  "trip_level_metrics_columns =
    [''trip_id'', ''duration_minutes'', ''avg_speed'', ''distance_km'', ''max_speed'',
     ''max_motor_temp'', ''max_cell_temp'', ''energy_consumed_kwh'']"

subsection \<open>Example inputs\<close>

text \<open>
  The library for the examples whose columns are uniform, each a column of numbers or a
  column of texts in one format: their fields are written as the reader types them and
  are delivered as they are. The two time stamps used below are read as pandas reads
  them, 0 and 600 seconds after the epoch; a numeric cell is read as its number; no
  other cell occurs in these examples.
\<close>

definition sample_pandas :: pandas where
  "sample_pandas =
    cell_wise (\<lambda>v. v)
      (\<lambda>v. if v = Str ''1970-01-01 00:00:00'' then Some 0
            else if v = Str ''1970-01-01 00:10:00'' then Some 600
            else None)
      (\<lambda>v. case v of Num x \<Rightarrow> Some x | _ \<Rightarrow> None)"

definition sample_chunk :: frame where
  "sample_chunk =
    mk_frame [''Trip_ID'', '' timestamp'', ''speed'', ''voltage'']
      [[Str ''A'', Str ''1970-01-01 00:00:00'', Num 50, Num 5000],
       [NaN, Str ''yesterday'', NaN, Str ''n/a'']]"

definition scenario_header :: "string list" where
  "scenario_header = [''trip_id'', ''timestamp'', ''speed_kmph'']"

text \<open>Two samples of trip \<open>A\<close>, taken 0 and 600 seconds after the epoch, with their speeds.\<close>

definition two_samples :: "rat \<Rightarrow> rat \<Rightarrow> val list list" where
  "two_samples s0 s1 =
    [[Str ''A'', Str ''1970-01-01 00:00:00'', Num s0],
     [Str ''A'', Str ''1970-01-01 00:10:00'', Num s1]]"

text \<open>A file of one data line whose \<open>trip_id\<close> is empty.\<close>

definition anonymous_sample :: "val list list" where
  "anonymous_sample = [[NaN, Str ''1970-01-01 00:00:00'', Num 50]]"

text \<open>An aggregated file in which a trip occurs twice, and one with a nameless row.\<close>

definition trip_level_header :: "string list" where
  "trip_level_header = [''trip_id'', ''distance_km'']"

definition repeated_trip :: "val list list" where
  "repeated_trip = [[Str ''A'', Num 1], [Str ''A'', Num 2]]"

definition nameless_trip :: "val list list" where
  "nameless_trip = [[Str ''A'', Num 1], [NaN, Num 2], [Str ''B'', Num 3]]"

text \<open>An aggregated file whose only row has no \<open>trip_id\<close>.\<close>

definition nameless_only :: "val list list" where
  "nameless_only = [[NaN, Num 2]]"







section \<open>Alias resolution and header order\<close>

lemma find_unique_set:
  assumes "set xs = set ys"
    and "\<And>x y. x \<in> set xs \<Longrightarrow> y \<in> set xs \<Longrightarrow> P x \<Longrightarrow> P y \<Longrightarrow> x = y"
  shows "find P xs = find P ys"
proof (cases "find P xs")
  case None
  then have "\<forall>x\<in>set ys. \<not> P x"
    using assms(1) by (auto simp: find_None_iff)
  then have "find P ys = None"
    by (simp add: find_None_iff)
  with None show ?thesis by simp
next
  case (Some a)
  then have a: "a \<in> set xs" "P a"
    by (auto simp: find_Some_iff)
  then obtain b where b: "find P ys = Some b"
    using assms(1) by (cases "find P ys") (auto simp: find_None_iff)
  then have "b \<in> set ys" "P b"
    by (auto simp: find_Some_iff)
  with a assms have "a = b" by auto
  with Some b show ?thesis by simp
qed

lemma remdups_le_one_unique:
  assumes "length (remdups (filter P xs)) \<le> 1" "x \<in> set xs" "y \<in> set xs" "P x" "P y"
  shows "x = y"
proof -
  have "card (set (filter P xs)) \<le> 1"
    using assms(1) by (simp add: length_remdups_card_conv)
  moreover have "x \<in> set (filter P xs)" "y \<in> set (filter P xs)"
    using assms by auto
  ultimately show ?thesis
    by (metis List.finite_set card_le_Suc0_iff_eq One_nat_def)
qed

lemma rename_map_set_eq:
  assumes "set xs = set ys" "unambiguous xs"
  shows "rename_map xs = rename_map ys"
proof -
  have "find (\<lambda>col. col \<in> set aliases) xs = find (\<lambda>col. col \<in> set aliases) ys"
    if "(canonical, aliases) \<in> set COLUMN_ALIASES" for canonical aliases
  proof (rule find_unique_set [OF assms(1)])
    fix x y
    assume xy: "x \<in> set xs" "y \<in> set xs" "x \<in> set aliases" "y \<in> set aliases"
    have "length (remdups (filter (\<lambda>col. col \<in> set aliases) xs)) \<le> 1"
      using assms(2) that unfolding unambiguous_def list_all_iff by fastforce
    from remdups_le_one_unique [OF this xy(1,2)] xy(3,4) show "x = y" by simp
  qed
  then show ?thesis
    unfolding rename_map_def
    by (intro arg_cong2 [where f = "\<lambda>f s. fold f COLUMN_ALIASES s"] fold_cong refl)
       (auto intro!: ext split: option.splits)
qed

text \<open>
  C3 (as stated: resolution does not depend on header order). In the code the
  first column in header order that matches an alias of a canonical field is the one
  renamed. With the headers \<open>tripid, trip_id\<close> the column \<open>tripid\<close> is renamed and the
  resolved frame has the label \<open>trip_id\<close> twice; with the headers swapped the column
  \<open>trip_id\<close> is matched first, \<open>tripid\<close> keeps its name, and the resolved labels are
  \<open>trip_id\<close> and \<open>tripid\<close>.
\<close>

theorem resolve_columns_order_counterexample:
  "mset [''tripid'', ''trip_id''] = mset [''trip_id'', ''tripid'']
   \<and> rename_map [''tripid'', ''trip_id''] ''tripid'' = Some ''trip_id''
   \<and> rename_map [''trip_id'', ''tripid''] ''tripid'' = None
   \<and> columns (resolve_columns \<lparr>columns = [''tripid'', ''trip_id''], rows = []\<rparr>)
       = [''trip_id'', ''trip_id'']
   \<and> columns (resolve_columns \<lparr>columns = [''trip_id'', ''tripid''], rows = []\<rparr>)
       = [''trip_id'', ''tripid'']"
  by (simp add: rename_map_def resolve_columns_def rename_columns_def rename_def
      COLUMN_ALIASES_def)

text \<open>
  C3 (amended). When no two different headers of the batch are aliases of the same
  canonical field, every permutation of the headers gives the same renaming
  dictionary, and the resolved column labels are the same up to that permutation.
\<close>

theorem resolve_columns_order_independent:
  assumes "mset (columns df1) = mset (columns df2)"
    and "unambiguous (columns df1)"
  shows "rename_map (columns df1) = rename_map (columns df2)
    \<and> mset (columns (resolve_columns df1)) = mset (columns (resolve_columns df2))"
proof -
  have "set (columns df1) = set (columns df2)"
    using assms(1) by (rule mset_eq_setD)
  then have m: "rename_map (columns df1) = rename_map (columns df2)"
    using assms(2) by (rule rename_map_set_eq)
  have "mset (columns (resolve_columns df1)) =
      image_mset (rename (rename_map (columns df1))) (mset (columns df1))"
    by (simp add: resolve_columns_def rename_columns_def)
  also have "\<dots> = mset (columns (resolve_columns df2))"
    by (simp add: resolve_columns_def rename_columns_def m assms(1))
  finally show ?thesis using m by simp
qed

theorem resolve_columns_order_independent_witness:
  "rename_map [''speed'', ''tripid'', ''note''] = rename_map [''note'', ''tripid'', ''speed'']
   \<and> mset (columns (resolve_columns \<lparr>columns = [''speed'', ''tripid'', ''note''], rows = []\<rparr>))
     = mset (columns (resolve_columns \<lparr>columns = [''note'', ''tripid'', ''speed''], rows = []\<rparr>))"
proof -
  have p: "mset (columns \<lparr>columns = [''speed'', ''tripid'', ''note''], rows = []\<rparr>)
      = mset (columns \<lparr>columns = [''note'', ''tripid'', ''speed''], rows = ([] :: row list)\<rparr>)"
    by simp
  have u: "unambiguous (columns \<lparr>columns = [''speed'', ''tripid'', ''note''], rows = []\<rparr>)"
    by (simp add: unambiguous_def COLUMN_ALIASES_def)
  from resolve_columns_order_independent [OF p u] show ?thesis by simp
qed

section \<open>The validation loop, row by row\<close>

lemma map_of_overwrite:
  "map_of (map (\<lambda>(k, x). (k, if k = c then v else x)) r) k
    = (if k = c then (if c \<in> fst ` set r then Some v else None) else map_of r k)"
proof (induction r)
  case Nil
  show ?case by simp
next
  case (Cons a r)
  obtain k' x' where a: "a = (k', x')" by (cases a)
  show ?case using Cons by (cases "k = c") (auto simp: a)
qed

lemma map_of_set_cell: "map_of (set_cell c v r) = (map_of r)(c \<mapsto> v)"
proof (cases "c \<in> fst ` set r")
  case True
  then show ?thesis
    by (simp add: set_cell_def fun_eq_iff map_of_overwrite)
next
  case False
  then have "map_of r c = None"
    by (simp add: map_of_eq_None_iff)
  with False show ?thesis
    by (auto simp: set_cell_def fun_eq_iff map_add_def split: option.splits)
qed

lemma get_set_cell [simp]: "get_val (set_cell c v r) c' = (if c' = c then v else get_val r c')"
  by (simp add: get_val_def map_of_set_cell)

lemma labels_set_cell:
  "map fst (set_cell c v r) = (if c \<in> set (map fst r) then map fst r else map fst r @ [c])"
  by (simp add: set_cell_def case_prod_unfold comp_def)

lemma zip_map_same: "zip (map f xs) xs = map (\<lambda>x. (f x, x)) xs"
  by (induction xs) auto

lemma rows_assign: "rows (assign c (map h (rows df)) df) = map (\<lambda>r. set_cell c (h r) r) (rows df)"
  by (simp add: assign_def zip_map_same)

lemma columns_assign: "columns (assign c s df) = add_column c (columns df)"
  by (simp add: assign_def)

lemma rows_assign_scalar: "rows (assign_scalar c v df) = map (set_cell c v) (rows df)"
proof -
  have "replicate (length xs) v = map (\<lambda>_. v) xs" for xs :: "row list"
    by (induction xs) auto
  then show ?thesis
    by (simp add: assign_scalar_def rows_assign)
qed

lemma columns_assign_scalar: "columns (assign_scalar c v df) = add_column c (columns df)"
  by (simp add: assign_scalar_def columns_assign)

lemma rows_loc_add:
  "rows (loc_add (map p (rows df)) c t df) = map (\<lambda>r. row_add (p r) c t r) (rows df)"
proof -
  have "map2 (\<lambda>m x. if m then str_add x t else x) (map p (rows df)) (series df c)
      = map (\<lambda>r. if p r then str_add (get_val r c) t else get_val r c) (rows df)"
    by (simp add: series_def zip_map_map zip_same_conv_map)
  then show ?thesis
    by (simp add: loc_add_def rows_assign row_add_def)
qed

lemma columns_loc_add: "columns (loc_add m c t df) = add_column c (columns df)"
  by (simp add: loc_add_def columns_assign)

lemma rows_loc_assign:
  "rows (loc_assign (map p (rows df)) c v df)
    = map (\<lambda>r. set_cell c (if p r then v else get_val r c) r) (rows df)"
proof -
  have "map2 (\<lambda>m x. if m then v else x) (map p (rows df)) (series df c)
      = map (\<lambda>r. if p r then v else get_val r c) (rows df)"
    by (simp add: series_def zip_map_map zip_same_conv_map)
  then show ?thesis
    by (simp add: loc_assign_def rows_assign)
qed

lemma columns_loc_assign: "columns (loc_assign m c v df) = add_column c (columns df)"
  by (simp add: loc_assign_def columns_assign)

lemma rows_select: "rows (select (map p (rows df)) df) = filter p (rows df)"
proof -
  have "map snd (filter fst (zip (map p xs) xs)) = filter p xs" for xs :: "row list"
    by (induction xs) auto
  then show ?thesis by (simp add: select_def)
qed

lemma columns_select: "columns (select m df) = columns df"
  by (simp add: select_def)

lemma frame_eqI: "columns a = columns b \<Longrightarrow> rows a = rows b \<Longrightarrow> a = (b :: frame)"
  by simp

lemma rows_fold:
  assumes "\<And>x df. rows (F x df) = map (R x) (rows df)"
  shows "rows (fold F xs df) = map (fold R xs) (rows df)"
  by (induction xs arbitrary: df) (simp_all add: assms)

lemma columns_fold:
  assumes "\<And>x df. columns (F x df) = C x (columns df)"
  shows "columns (fold F xs df) = fold C xs (columns df)"
  by (induction xs arbitrary: df) (simp_all add: assms)

lemma columns_backfill: "columns (backfill col df) = add_column col (columns df)"
  by (simp add: backfill_def columns_assign_scalar add_column_def)

lemma rows_backfill: "rows (backfill col df) = map (row_backfill (columns df) col) (rows df)"
  by (simp add: backfill_def rows_assign_scalar row_backfill_def [abs_def])

lemma set_add_column: "set (add_column c cols) = insert c (set cols)"
  by (auto simp: add_column_def)

lemma rows_fold_backfill:
  "distinct xs \<Longrightarrow>
    rows (fold backfill xs df) = map (fold (row_backfill (columns df)) xs) (rows df)"
proof (induction xs arbitrary: df)
  case Nil
  show ?case by simp
next
  case (Cons x xs)
  have "fold (row_backfill (columns (backfill x df))) xs r = fold (row_backfill (columns df)) xs r"
    for r
    using Cons.prems
    by (intro fold_cong refl)
       (auto simp: row_backfill_def columns_backfill set_add_column fun_eq_iff)
  then have "fold (row_backfill (columns (backfill x df))) xs = fold (row_backfill (columns df)) xs"
    by (rule ext)
  with Cons show ?case
    by (simp add: rows_backfill)
qed

lemma rows_parse_timestamps:
  "rows (parse_timestamps pd df)
    = map (\<lambda>r. set_cell ''timestamp''
              (datetime_cell pd (series df ''timestamp'') (get_val r ''timestamp'')) r) (rows df)"
proof -
  have "to_datetime pd (series df ''timestamp'')
      = map (\<lambda>r. datetime_cell pd (series df ''timestamp'') (get_val r ''timestamp'')) (rows df)"
    by (simp add: to_datetime_def series_def)
  then show ?thesis
    by (simp add: parse_timestamps_def rows_assign)
qed

lemma rows_coerce_column: "rows (coerce_column pd x df) = map (row_coerce pd x) (rows df)"
proof -
  obtain col lo hi where x: "x = (col, lo, hi)" by (cases x)
  have "coerce_float pd (series df col) = map (\<lambda>r. numeric_cell pd (get_val r col)) (rows df)"
    by (simp add: coerce_float_def series_def)
  then show ?thesis
    by (simp add: coerce_column_def rows_assign row_coerce_def x)
qed

lemma columns_coerce_column: "columns (coerce_column pd x df) = add_column (fst x) (columns df)"
  by (cases x) (simp add: coerce_column_def columns_assign)

lemma rows_reject_missing:
  "rows (reject_missing col tag df)
    = map (\<lambda>r. row_add (get_val r col = NaN) ''rejection_reasons'' tag r) (rows df)"
proof -
  have "isna (series df col) = map (\<lambda>r. get_val r col = NaN) (rows df)"
    by (simp add: isna_def series_def)
  then show ?thesis
    by (simp add: reject_missing_def rows_loc_add)
qed

lemma rows_salvage: "rows (salvage x df) = map (row_salvage x) (rows df)"
proof -
  obtain col lo hi where x: "x = (col, lo, hi)" by (cases x)
  define p where "p = (\<lambda>r. \<not> in_range lo hi (get_val r col))"
  define g where "g = (\<lambda>r. set_cell col (if p r then NaN else get_val r col) r)"
  have m: "invert (between lo hi (series df col)) = map p (rows df)"
    by (simp add: invert_def between_def series_def p_def)
  have pg: "p (g r) = p r" for r
    by (simp add: p_def g_def in_range_def)
  define df1 where "df1 = loc_assign (map p (rows df)) col NaN df"
  have r1: "rows df1 = map g (rows df)"
    by (simp add: df1_def rows_loc_assign g_def)
  have "map p (rows df) = map p (rows df1)"
    by (simp add: r1 pg)
  then have "rows (loc_add (map p (rows df)) ''salvage_notes'' (salvage_tag col) df1)
      = map (\<lambda>r. row_add (p r) ''salvage_notes'' (salvage_tag col) r) (rows df1)"
    by (simp only: rows_loc_add)
  also have "\<dots> = map (row_salvage x) (rows df)"
    by (simp add: r1 row_salvage_def x Let_def p_def g_def in_range_def)
  finally show ?thesis
    by (simp add: salvage_def x Let_def m df1_def)
qed

lemma columns_salvage:
  "columns (salvage x df) = add_column ''salvage_notes'' (add_column (fst x) (columns df))"
  by (cases x) (simp add: salvage_def Let_def columns_loc_add columns_loc_assign)

lemma rows_reject_all_invalid:
  "rows (reject_all_invalid df)
    = map (\<lambda>r. row_add (list_all (\<lambda>(col, lo, hi). get_val r col = NaN) VALID_RANGES)
                 ''rejection_reasons'' ''|all_sensors_invalid'' r) (rows df)"
  by (simp add: reject_all_invalid_def all_sensors_na_def rows_loc_add)

lemma is_rejected_row_status [simp]: "is_rejected (row_status r) = is_rejected r"
  by (simp add: is_rejected_def row_status_def)

lemma final_classification_rows:
  "final_classification df =
    \<lparr>classified = \<lparr>columns = add_column ''validation_status'' (columns df),
                    rows = map row_status (rows df)\<rparr>,
     valid_part = \<lparr>columns = add_column ''validation_status'' (columns df),
                    rows = filter (\<lambda>r. \<not> is_rejected r) (map row_status (rows df))\<rparr>,
     rejected_part = \<lparr>columns = add_column ''validation_status'' (columns df),
                    rows = filter is_rejected (map row_status (rows df))\<rparr>\<rparr>"
proof -
  define p where "p = (\<lambda>r. get_val r ''rejection_reasons'' \<noteq> Str [])"
  define df1 where "df1 = loc_assign (map p (rows df)) ''validation_status'' (Str ''rejected'') df"
  have m: "ne_str (series df ''rejection_reasons'') [] = map p (rows df)"
    by (simp add: ne_str_def series_def p_def)
  have r1: "rows df1 = map row_status (rows df)"
    by (simp add: df1_def rows_loc_assign row_status_def p_def)
  have c1: "columns df1 = add_column ''validation_status'' (columns df)"
    by (simp add: df1_def columns_loc_assign)
  have m1: "map p (rows df) = map is_rejected (rows df1)"
    by (simp add: r1 p_def is_rejected_def [symmetric] is_rejected_def [abs_def, symmetric])
  have m2: "invert (map p (rows df)) = map (\<lambda>r. \<not> is_rejected r) (rows df1)"
    by (simp add: m1 invert_def)
  have "final_classification df =
      \<lparr>classified = df1, valid_part = select (invert (map p (rows df))) df1,
        rejected_part = select (map p (rows df)) df1\<rparr>"
    by (simp add: final_classification_def Let_def m df1_def)
  also have "select (invert (map p (rows df))) df1
      = \<lparr>columns = add_column ''validation_status'' (columns df),
         rows = filter (\<lambda>r. \<not> is_rejected r) (map row_status (rows df))\<rparr>"
  proof (rule frame_eqI)
    have "rows (select (invert (map p (rows df))) df1) = filter (\<lambda>r. \<not> is_rejected r) (rows df1)"
      unfolding m2 by (rule rows_select)
    then show "rows (select (invert (map p (rows df))) df1)
        = rows \<lparr>columns = add_column ''validation_status'' (columns df),
            rows = filter (\<lambda>r. \<not> is_rejected r) (map row_status (rows df))\<rparr>"
      by (simp add: r1)
  qed (simp add: columns_select c1)
  also have "select (map p (rows df)) df1
      = \<lparr>columns = add_column ''validation_status'' (columns df),
         rows = filter is_rejected (map row_status (rows df))\<rparr>"
  proof (rule frame_eqI)
    have "rows (select (map p (rows df)) df1) = filter is_rejected (rows df1)"
      unfolding m1 by (rule rows_select)
    then show "rows (select (map p (rows df)) df1)
        = rows \<lparr>columns = add_column ''validation_status'' (columns df),
            rows = filter is_rejected (map row_status (rows df))\<rparr>"
      by (simp add: r1)
  qed (simp add: columns_select c1)
  also have "df1 = \<lparr>columns = add_column ''validation_status'' (columns df),
         rows = map row_status (rows df)\<rparr>"
    by (rule frame_eqI) (simp_all add: c1 r1)
  finally show ?thesis .
qed

lemma add_column_absorb: "c \<in> set cols \<Longrightarrow> add_column c cols = cols"
  by (simp add: add_column_def)

lemma set_fold_add_column: "set (fold add_column xs cols) = set xs \<union> set cols"
  by (induction xs arbitrary: cols) (auto simp: set_add_column)

lemma fold_add_fst_absorb:
  "\<forall>x\<in>set xs. fst x \<in> set cols \<Longrightarrow> fold (\<lambda>x. add_column (fst x)) xs cols = cols"
  by (induction xs) (simp_all add: add_column_absorb)

lemma fold_add_salvage_absorb:
  "''salvage_notes'' \<in> set cols \<Longrightarrow> \<forall>x\<in>set xs. fst x \<in> set cols \<Longrightarrow>
    fold (\<lambda>x cs. add_column ''salvage_notes'' (add_column (fst x) cs)) xs cols = cols"
  by (induction xs) (simp_all add: add_column_absorb)

lemma validate_chunk_rows:
  "validate_chunk pd chunk0 =
    (let chunk = resolve_columns (normalize_columns chunk0);
         cols = classify_columns (columns chunk);
         rs = map (classify_row pd (timestamps_of chunk) (columns chunk)) (rows chunk)
     in if duplicated (columns chunk) selected then Inl DuplicateColumn
        else Inr \<lparr>classified = \<lparr>columns = cols, rows = rs\<rparr>,
                  valid_part = \<lparr>columns = cols, rows = filter (\<lambda>r. \<not> is_rejected r) rs\<rparr>,
                  rejected_part = \<lparr>columns = cols, rows = filter is_rejected rs\<rparr>\<rparr>)"
proof -
  define chunk where "chunk = resolve_columns (normalize_columns chunk0)"
  define c1 where "c1 = fold backfill REQUIRED_COLUMNS chunk"
  define c4 where "c4 = assign_scalar ''validation_status'' (Str ''valid'')
      (assign_scalar ''salvage_notes'' (Str [])
        (assign_scalar ''rejection_reasons'' (Str []) c1))"
  define c6 where "c6 = fold (coerce_column pd) VALID_RANGES (parse_timestamps pd c4)"
  define c8 where "c8 = reject_missing ''timestamp'' ''|invalid_timestamp''
      (reject_missing ''trip_id'' ''|missing_trip_id'' c6)"
  define c10 where "c10 = reject_all_invalid (fold salvage VALID_RANGES c8)"
  have v: "validate_chunk pd chunk0 =
      (if duplicated (columns chunk) selected then Inl DuplicateColumn
       else Inr (final_classification c10))"
    by (simp add: validate_chunk_def Let_def chunk_def c1_def c4_def c6_def c8_def c10_def)
  have col1: "columns c1 = fold add_column REQUIRED_COLUMNS (columns chunk)"
    unfolding c1_def by (rule columns_fold) (rule columns_backfill)
  have col4: "columns c4 = classify_columns (columns chunk)"
    by (simp add: c4_def columns_assign_scalar col1 classify_columns_def addressed_def)
  have mem4: "set addressed \<subseteq> set (columns c4)"
    by (simp add: col4 classify_columns_def set_fold_add_column)
  have col6: "columns c6 = columns c4"
  proof -
    have "columns c6 = fold (\<lambda>x. add_column (fst x)) VALID_RANGES (columns (parse_timestamps pd c4))"
      unfolding c6_def by (rule columns_fold) (rule columns_coerce_column)
    also have "columns (parse_timestamps pd c4) = columns c4"
      using mem4 by (simp add: parse_timestamps_def columns_assign add_column_absorb
          addressed_def REQUIRED_COLUMNS_def)
    also have "fold (\<lambda>x. add_column (fst x)) VALID_RANGES (columns c4) = columns c4"
      using mem4 by (intro fold_add_fst_absorb)
        (auto simp: addressed_def REQUIRED_COLUMNS_def VALID_RANGES_def)
    finally show ?thesis .
  qed
  have col8: "columns c8 = columns c4"
    using mem4 by (simp add: c8_def reject_missing_def columns_loc_add col6 add_column_absorb
        addressed_def)
  have col10: "columns c10 = columns c4"
  proof -
    have "columns (fold salvage VALID_RANGES c8)
        = fold (\<lambda>x cs. add_column ''salvage_notes'' (add_column (fst x) cs)) VALID_RANGES (columns c8)"
      by (rule columns_fold) (rule columns_salvage)
    also have "\<dots> = columns c4"
      unfolding col8 using mem4 by (intro fold_add_salvage_absorb)
        (auto simp: addressed_def REQUIRED_COLUMNS_def VALID_RANGES_def)
    finally show ?thesis
      using mem4 by (simp add: c10_def reject_all_invalid_def columns_loc_add add_column_absorb
          addressed_def)
  qed
  have colf: "add_column ''validation_status'' (columns c10) = classify_columns (columns chunk)"
    using mem4 by (simp add: col10 add_column_absorb addressed_def col4 [symmetric])
  have row1: "rows c1 = map (fold (row_backfill (columns chunk)) REQUIRED_COLUMNS) (rows chunk)"
    unfolding c1_def by (rule rows_fold_backfill) (simp add: REQUIRED_COLUMNS_def)
  have row6: "rows (fold (coerce_column pd) VALID_RANGES df)
      = map (fold (row_coerce pd) VALID_RANGES) (rows df)" for df
    by (rule rows_fold) (rule rows_coerce_column)
  have row9: "rows (fold salvage VALID_RANGES df) = map (fold row_salvage VALID_RANGES) (rows df)"
    for df
    by (rule rows_fold) (rule rows_salvage)
  have row4: "rows c4 = map (\<lambda>r. set_cell ''validation_status'' (Str ''valid'')
        (set_cell ''salvage_notes'' (Str [])
          (set_cell ''rejection_reasons'' (Str [])
            (fold (row_backfill (columns chunk)) REQUIRED_COLUMNS r)))) (rows chunk)"
    by (simp add: c4_def rows_assign_scalar row1)
  have ts4: "series c4 ''timestamp'' = timestamps_of chunk"
    by (simp add: series_def row4 timestamps_of_def)
  have row5: "rows (parse_timestamps pd c4)
      = map (\<lambda>r. set_cell ''timestamp''
                (datetime_cell pd (timestamps_of chunk) (get_val r ''timestamp'')) r) (rows c4)"
    by (simp only: rows_parse_timestamps ts4)
  have rowf: "map row_status (rows c10)
      = map (classify_row pd (timestamps_of chunk) (columns chunk)) (rows chunk)"
    by (simp add: c10_def c8_def c6_def rows_reject_all_invalid row9 rows_reject_missing
        row6 row5 row4 classify_row_def Let_def)
  show ?thesis
    unfolding v final_classification_rows colf rowf
    by (simp add: Let_def chunk_def)
qed

lemma fst_in_image: "(c, y) \<in> set xs \<Longrightarrow> c \<in> fst ` set xs"
  by force

lemma get_fold_backfill:
  "get_val (fold (row_backfill cols) xs r) c
    = (if c \<in> set xs \<and> c \<notin> set cols then NaN else get_val r c)"
  by (induction xs arbitrary: r) (auto simp: row_backfill_def)

lemma get_fold_coerce:
  "distinct (map fst xs) \<Longrightarrow>
    get_val (fold (row_coerce pd) xs r) c
      = (if c \<in> fst ` set xs then numeric_cell pd (get_val r c) else get_val r c)"
proof (induction xs arbitrary: r)
  case Nil
  show ?case by simp
next
  case (Cons x xs)
  obtain col lo hi where x: "x = (col, lo, hi)" by (cases x)
  from Cons.prems have "col \<notin> fst ` set xs" "distinct (map fst xs)"
    by (auto simp: x)
  with Cons.IH [of "row_coerce pd x r"] show ?case
    by (auto simp: x row_coerce_def)
qed

lemma get_row_salvage:
  "col \<noteq> ''salvage_notes'' \<Longrightarrow>
    get_val (row_salvage (col, lo, hi) r) c
      = (if c = ''salvage_notes''
         then (if in_range lo hi (get_val r col) then get_val r ''salvage_notes''
               else str_add (get_val r ''salvage_notes'') (salvage_tag col))
         else if c = col
         then (if in_range lo hi (get_val r col) then get_val r col else NaN)
         else get_val r c)"
  by (simp add: row_salvage_def row_add_def Let_def)

lemma get_fold_salvage_other:
  "c \<noteq> ''salvage_notes'' \<Longrightarrow> c \<notin> fst ` set xs \<Longrightarrow> ''salvage_notes'' \<notin> fst ` set xs \<Longrightarrow>
    get_val (fold row_salvage xs r) c = get_val r c"
proof (induction xs arbitrary: r)
  case Nil
  show ?case by simp
next
  case (Cons x xs)
  obtain col lo hi where x: "x = (col, lo, hi)" by (cases x)
  from Cons.prems have "col \<noteq> ''salvage_notes''" "c \<noteq> col"
    by (auto simp: x)
  with Cons show ?case
    by (simp add: x get_row_salvage)
qed

lemma get_fold_salvage_sensor:
  "distinct (map fst xs) \<Longrightarrow> ''salvage_notes'' \<notin> fst ` set xs \<Longrightarrow> (c, lo, hi) \<in> set xs \<Longrightarrow>
    get_val (fold row_salvage xs r) c
      = (if in_range lo hi (get_val r c) then get_val r c else NaN)"
proof (induction xs arbitrary: r)
  case Nil
  then show ?case by simp
next
  case (Cons x xs)
  obtain col l h where x: "x = (col, l, h)" by (cases x)
  from Cons.prems have col: "col \<noteq> ''salvage_notes''" "col \<notin> fst ` set xs"
    and xs: "distinct (map fst xs)" "''salvage_notes'' \<notin> fst ` set xs"
    by (auto simp: x)
  show ?case
  proof (cases "(c, lo, hi) = x")
    case True
    then have c: "c = col" "lo = l" "hi = h" by (simp_all add: x)
    have "get_val (fold row_salvage xs (row_salvage x r)) col = get_val (row_salvage x r) col"
      using col xs by (intro get_fold_salvage_other) auto
    then show ?thesis
      using col by (simp add: c x get_row_salvage)
  next
    case False
    with Cons.prems have mem: "(c, lo, hi) \<in> set xs" by simp
    then have "c \<in> fst ` set xs" by force
    with col have "c \<noteq> col" by auto
    moreover have "c \<noteq> ''salvage_notes''"
      using \<open>c \<in> fst ` set xs\<close> xs(2) by blast
    ultimately show ?thesis
      using Cons.IH [OF xs mem, of "row_salvage x r"] col
      by (simp add: x get_row_salvage)
  qed
qed

lemma notes_of_cong:
  "(\<And>c. c \<in> fst ` set xs \<Longrightarrow> get_val r c = get_val r' c) \<Longrightarrow> notes_of xs r = notes_of xs r'"
  unfolding notes_of_def
  by (intro arg_cong [where f = concat] map_cong refl) force

lemma get_fold_salvage_notes:
  "distinct (map fst xs) \<Longrightarrow> ''salvage_notes'' \<notin> fst ` set xs \<Longrightarrow>
    get_val r ''salvage_notes'' = Str s \<Longrightarrow>
    get_val (fold row_salvage xs r) ''salvage_notes'' = Str (s @ notes_of xs r)"
proof (induction xs arbitrary: r s)
  case Nil
  then show ?case by (simp add: notes_of_def)
next
  case (Cons x xs)
  obtain col l h where x: "x = (col, l, h)" by (cases x)
  from Cons.prems have col: "col \<noteq> ''salvage_notes''" "col \<notin> fst ` set xs"
    and xs: "distinct (map fst xs)" "''salvage_notes'' \<notin> fst ` set xs"
    by (auto simp: x)
  define t where "t = (if in_range l h (get_val r col) then [] else salvage_tag col)"
  have "get_val (row_salvage x r) ''salvage_notes'' = Str (s @ t)"
    using col Cons.prems(3) by (simp add: x get_row_salvage t_def str_add_def)
  from Cons.IH [OF xs this]
  have "get_val (fold row_salvage (x # xs) r) ''salvage_notes''
      = Str (s @ t @ notes_of xs (row_salvage x r))"
    by simp
  also have "notes_of xs (row_salvage x r) = notes_of xs r"
  proof (rule notes_of_cong)
    fix c assume "c \<in> fst ` set xs"
    with col xs(2) have "c \<noteq> col" "c \<noteq> ''salvage_notes''"
      by blast+
    with col show "get_val (row_salvage x r) c = get_val r c"
      by (simp add: x get_row_salvage)
  qed
  also have "t @ notes_of xs r = notes_of (x # xs) r"
    by (simp add: notes_of_def x t_def)
  finally show ?case .
qed

lemma sensor_labels:
  "fst ` set VALID_RANGES =
    {''speed_kmph'', ''battery_voltage'', ''battery_current'', ''soc_percent'',
     ''motor_temp_c'', ''cell_temp_c''}"
  by (auto simp: VALID_RANGES_def)

lemma distinct_sensors: "distinct (map fst VALID_RANGES)"
  by (simp add: VALID_RANGES_def)

lemma sensor_not_meta:
  assumes "c \<in> fst ` set VALID_RANGES"
  shows "c \<noteq> ''trip_id''" "c \<noteq> ''timestamp''" "c \<noteq> ''rejection_reasons''"
    "c \<noteq> ''salvage_notes''" "c \<noteq> ''validation_status''"
  using assms unfolding sensor_labels by auto

lemma classify_row_fields:
  fixes pd :: pandas and ts :: "val list" and cols :: "string list" and r :: row
  assumes H: "absent_is_na cols r"
  defines "r' \<equiv> classify_row pd ts cols r"
  shows "get_val r' ''trip_id'' = get_val r ''trip_id''"
    and "get_val r' ''timestamp'' = datetime_cell pd ts (get_val r ''timestamp'')"
    and "\<And>c lo hi. (c, lo, hi) \<in> set VALID_RANGES \<Longrightarrow>
          get_val r' c = salvaged pd lo hi (get_val r c)"
    and "get_val r' ''salvage_notes'' = Str (expected_notes pd r)"
    and "get_val r' ''rejection_reasons'' = Str (expected_reasons pd ts r)"
    and "get_val r' ''validation_status''
          = (if expected_reasons pd ts r \<noteq> [] then Str ''rejected'' else Str ''valid'')"
proof -
  define rb where "rb = fold (row_backfill cols) REQUIRED_COLUMNS r"
  have gb: "get_val rb c = get_val r c" for c
    using H by (auto simp: rb_def get_fold_backfill absent_is_na_def list_all_iff)
  define r4 where "r4 = set_cell ''timestamp'' (datetime_cell pd ts (get_val rb ''timestamp''))
      (set_cell ''validation_status'' (Str ''valid'')
        (set_cell ''salvage_notes'' (Str [])
          (set_cell ''rejection_reasons'' (Str []) rb)))"
  have g4: "get_val r4 c =
      (if c = ''timestamp'' then datetime_cell pd ts (get_val r ''timestamp'')
       else if c = ''validation_status'' then Str ''valid''
       else if c = ''salvage_notes'' then Str []
       else if c = ''rejection_reasons'' then Str []
       else get_val r c)" for c
    by (simp add: r4_def gb)
  define r5 where "r5 = fold (row_coerce pd) VALID_RANGES r4"
  have g5: "get_val r5 c =
      (if c \<in> fst ` set VALID_RANGES then numeric_cell pd (get_val r c) else get_val r4 c)" for c
    using sensor_not_meta [of c]
    by (simp add: r5_def get_fold_coerce [OF distinct_sensors] g4)
  define t1 where "t1 = (if get_val r ''trip_id'' = NaN then ''|missing_trip_id'' else [])"
  define t2 where
    "t2 = (if datetime_cell pd ts (get_val r ''timestamp'') = NaN then ''|invalid_timestamp'' else [])"
  define r6 where
    "r6 = row_add (get_val r5 ''trip_id'' = NaN) ''rejection_reasons'' ''|missing_trip_id'' r5"
  define r7 where
    "r7 = row_add (get_val r6 ''timestamp'' = NaN) ''rejection_reasons'' ''|invalid_timestamp'' r6"
  have meta5: "get_val r5 ''trip_id'' = get_val r ''trip_id''"
    "get_val r5 ''timestamp'' = datetime_cell pd ts (get_val r ''timestamp'')"
    "get_val r5 ''rejection_reasons'' = Str []"
    "get_val r5 ''salvage_notes'' = Str []"
    "get_val r5 ''validation_status'' = Str ''valid''"
    by (simp_all add: g5 g4 sensor_labels)
  have g6: "get_val r6 c = (if c = ''rejection_reasons'' then Str t1 else get_val r5 c)" for c
    by (simp add: r6_def row_add_def meta5 t1_def str_add_def)
  have g7: "get_val r7 c = (if c = ''rejection_reasons'' then Str (t1 @ t2) else get_val r5 c)" for c
    by (simp add: r7_def row_add_def g6 meta5 t2_def str_add_def)
  define r8 where "r8 = fold row_salvage VALID_RANGES r7"
  have notes_free: "''salvage_notes'' \<notin> fst ` set VALID_RANGES"
    by (simp add: sensor_labels)
  have g8_sensor: "get_val r8 c = salvaged pd lo hi (get_val r c)"
    if "(c, lo, hi) \<in> set VALID_RANGES" for c lo hi
  proof -
    have c: "c \<in> fst ` set VALID_RANGES" using that by (rule fst_in_image)
    then have "get_val r7 c = numeric_cell pd (get_val r c)"
      using sensor_not_meta [OF c] by (simp add: g7 g5)
    then show ?thesis
      by (simp add: r8_def get_fold_salvage_sensor [OF distinct_sensors notes_free that]
          salvaged_def)
  qed
  have g8_other: "get_val r8 c = get_val r7 c"
    if "c \<noteq> ''salvage_notes''" "c \<notin> fst ` set VALID_RANGES" for c
    unfolding r8_def using that notes_free by (intro get_fold_salvage_other)
  have g8_notes: "get_val r8 ''salvage_notes'' = Str (expected_notes pd r)"
  proof -
    have "get_val r7 ''salvage_notes'' = Str []"
      by (simp add: g7 meta5)
    from get_fold_salvage_notes [OF distinct_sensors notes_free this]
    have "get_val r8 ''salvage_notes'' = Str (notes_of VALID_RANGES r7)"
      by (simp add: r8_def)
    also have "notes_of VALID_RANGES r7 = expected_notes pd r"
      unfolding notes_of_def expected_notes_def
    proof (intro arg_cong [where f = concat] map_cong refl)
      fix x assume x: "x \<in> set VALID_RANGES"
      obtain c lo hi where xe: "x = (c, lo, hi)" by (cases x)
      have c: "c \<in> fst ` set VALID_RANGES" using x unfolding xe by (rule fst_in_image)
      have "get_val r7 c = numeric_cell pd (get_val r c)"
        using sensor_not_meta [OF c] c by (simp add: g7 g5)
      then show "(case x of (col, lo, hi) \<Rightarrow>
            if in_range lo hi (get_val r7 col) then [] else salvage_tag col)
          = (case x of (col, lo, hi) \<Rightarrow>
            if in_range lo hi (numeric_cell pd (get_val r col)) then [] else salvage_tag col)"
        by (simp add: xe)
    qed
    finally show ?thesis .
  qed
  define all_nan where
    "all_nan = list_all (\<lambda>(col, lo, hi). get_val r8 col = NaN) VALID_RANGES"
  have all_nan: "all_nan
      = list_all (\<lambda>(col, lo, hi). salvaged pd lo hi (get_val r col) = NaN) VALID_RANGES"
    unfolding all_nan_def list_all_iff using g8_sensor by fastforce
  define r9 where "r9 = row_add all_nan ''rejection_reasons'' ''|all_sensors_invalid'' r8"
  have meta8: "get_val r8 ''rejection_reasons'' = Str (t1 @ t2)"
    "get_val r8 ''trip_id'' = get_val r ''trip_id''"
    "get_val r8 ''timestamp'' = datetime_cell pd ts (get_val r ''timestamp'')"
    "get_val r8 ''validation_status'' = Str ''valid''"
    by (simp_all add: g8_other sensor_labels g7 meta5)
  have g9: "get_val r9 c =
      (if c = ''rejection_reasons'' then Str (expected_reasons pd ts r) else get_val r8 c)" for c
    by (simp add: r9_def row_add_def meta8 str_add_def expected_reasons_def t1_def t2_def all_nan)
  have r': "r' = row_status r9"
    by (simp add: r'_def classify_row_def Let_def rb_def r4_def r5_def r6_def r7_def r8_def
        r9_def all_nan_def)
  have g': "get_val r' c =
      (if c = ''validation_status''
       then (if expected_reasons pd ts r \<noteq> [] then Str ''rejected'' else Str ''valid'')
       else get_val r9 c)" for c
    by (simp add: r' row_status_def g9 meta8)
  show "get_val r' ''trip_id'' = get_val r ''trip_id''"
    by (simp add: g' g9 meta8)
  show "get_val r' ''timestamp'' = datetime_cell pd ts (get_val r ''timestamp'')"
    by (simp add: g' g9 meta8)
  show "get_val r' c = salvaged pd lo hi (get_val r c)"
    if "(c, lo, hi) \<in> set VALID_RANGES" for c lo hi
    using sensor_not_meta [OF fst_in_image [OF that]] by (simp add: g' g9 g8_sensor [OF that])
  show "get_val r' ''salvage_notes'' = Str (expected_notes pd r)"
    by (simp add: g' g9 g8_notes)
  show "get_val r' ''rejection_reasons'' = Str (expected_reasons pd ts r)"
    by (simp add: g' g9)
  show "get_val r' ''validation_status''
      = (if expected_reasons pd ts r \<noteq> [] then Str ''rejected'' else Str ''valid'')"
    by (simp add: g')
qed

lemma rows_rename_columns: "rows (rename_columns f df) = map (map (\<lambda>(k, v). (f k, v))) (rows df)"
  by (simp add: rename_columns_def)

lemma columns_rename_columns: "columns (rename_columns f df) = map f (columns df)"
  by (simp add: rename_columns_def)

lemma labels_rename: "map fst (map (\<lambda>(k, v). (f k, v)) r) = map f (map fst r)"
  by (induction r) auto

lemma well_formed_rename:
  assumes "well_formed df"
  shows "well_formed (rename_columns f df)"
proof -
  have "map fst (map (\<lambda>(k, v). (f k, v)) r) = map f (columns df)" if "r \<in> set (rows df)" for r
    using assms that by (simp only: labels_rename) (simp add: well_formed_def list_all_iff)
  then show ?thesis
    by (simp add: well_formed_def list_all_iff rename_columns_def del: map_map)
qed

lemma well_formed_resolved: "well_formed chunk \<Longrightarrow> well_formed (resolved chunk)"
  by (simp add: resolved_def resolve_columns_def normalize_columns_def well_formed_rename)

lemma length_rows_resolved [simp]: "length (rows (resolved chunk)) = length (rows chunk)"
  by (simp add: resolved_def resolve_columns_def normalize_columns_def rename_columns_def)

lemma well_formed_absent:
  assumes "well_formed df" "r \<in> set (rows df)"
  shows "absent_is_na (columns df) r"
proof -
  have l: "map fst r = columns df"
    using assms by (simp add: well_formed_def list_all_iff)
  have "get_val r c = NaN" if "c \<notin> set (columns df)" for c
  proof -
    from that l have "c \<notin> fst ` set r" by (metis set_map)
    then have "map_of r c = None" by (simp add: map_of_eq_None_iff)
    then show ?thesis by (simp add: get_val_def)
  qed
  then show ?thesis
    by (auto simp: absent_is_na_def list_all_iff)
qed

lemma validate_chunk_Inr:
  assumes "validate_chunk pd chunk = Inr v"
  shows "classified v = \<lparr>columns = classify_columns (columns (resolved chunk)),
            rows = map (classify_row pd (timestamps_of (resolved chunk)) (columns (resolved chunk))) (rows (resolved chunk))\<rparr>"
    and "valid_part v = \<lparr>columns = classify_columns (columns (resolved chunk)),
            rows = filter (\<lambda>r. \<not> is_rejected r)
              (map (classify_row pd (timestamps_of (resolved chunk)) (columns (resolved chunk))) (rows (resolved chunk)))\<rparr>"
    and "rejected_part v = \<lparr>columns = classify_columns (columns (resolved chunk)),
            rows = filter is_rejected
              (map (classify_row pd (timestamps_of (resolved chunk)) (columns (resolved chunk))) (rows (resolved chunk)))\<rparr>"
  using assms unfolding validate_chunk_rows resolved_def Let_def
  by (auto split: if_splits)

lemma timestamps_of_well_formed:
  assumes "well_formed df"
  shows "timestamps_of df = series df ''timestamp''"
proof -
  have "get_val (fold (row_backfill (columns df)) REQUIRED_COLUMNS r) ''timestamp''
      = get_val r ''timestamp''" if "r \<in> set (rows df)" for r
    using well_formed_absent [OF assms that]
    by (auto simp: get_fold_backfill absent_is_na_def list_all_iff)
  then show ?thesis
    by (simp add: timestamps_of_def series_def)
qed

lemma classified_row:
  assumes "validate_chunk pd chunk = Inr v" "well_formed chunk" "i < length (rows chunk)"
  shows "rows (classified v) ! i
      = classify_row pd (series (resolved chunk) ''timestamp'') (columns (resolved chunk))
          (rows (resolved chunk) ! i)"
    and "absent_is_na (columns (resolved chunk)) (rows (resolved chunk) ! i)"
proof -
  show "rows (classified v) ! i
      = classify_row pd (series (resolved chunk) ''timestamp'') (columns (resolved chunk))
          (rows (resolved chunk) ! i)"
    using assms(3)
    by (simp add: validate_chunk_Inr(1) [OF assms(1)]
        timestamps_of_well_formed [OF well_formed_resolved [OF assms(2)]])
  have "rows (resolved chunk) ! i \<in> set (rows (resolved chunk))"
    using assms(3) by simp
  with well_formed_resolved [OF assms(2)]
  show "absent_is_na (columns (resolved chunk)) (rows (resolved chunk) ! i)"
    by (rule well_formed_absent)
qed

section \<open>Rejected rows\<close>

lemma all_salvaged_iff:
  assumes "\<And>c lo hi. (c, lo, hi) \<in> set VALID_RANGES \<Longrightarrow> get_val r' c = salvaged pd lo hi (get_val r c)"
  shows "list_all (\<lambda>(col, lo, hi). salvaged pd lo hi (get_val r col) = NaN) VALID_RANGES
     = list_all (\<lambda>(col, lo, hi). get_val r' col = NaN) VALID_RANGES"
  unfolding list_all_iff using assms by fastforce

text \<open>
  C2. Row \<open>i\<close> of a chunk ends with \<open>validation_status = rejected\<close> exactly when its
  \<open>trip_id\<close> is missing, or its timestamp does not parse, or every sensor column of the
  row is missing after the salvage loop; and exactly when its \<open>rejection_reasons\<close> is
  not the empty text.
\<close>

theorem rejected_iff:
  assumes "validate_chunk pd chunk = Inr v"
    and "well_formed chunk"
    and "i < length (rows chunk)"
  shows "(get_val (rows (classified v) ! i) ''validation_status'' = Str ''rejected'' \<longleftrightarrow>
          get_val (rows (resolved chunk) ! i) ''trip_id'' = NaN
          \<or> datetime_cell pd (series (resolved chunk) ''timestamp'')
                (get_val (rows (resolved chunk) ! i) ''timestamp'') = NaN
          \<or> list_all (\<lambda>(col, lo, hi). get_val (rows (classified v) ! i) col = NaN) VALID_RANGES)
       \<and> (get_val (rows (classified v) ! i) ''validation_status'' = Str ''rejected'' \<longleftrightarrow>
          get_val (rows (classified v) ! i) ''rejection_reasons'' \<noteq> Str [])"
proof -
  note f = classify_row_fields [OF classified_row(2) [OF assms], where pd = pd
      and ts = "series (resolved chunk) ''timestamp''",
      folded classified_row(1) [OF assms]]
  have "list_all (\<lambda>(col, lo, hi).
        salvaged pd lo hi (get_val (rows (resolved chunk) ! i) col) = NaN) VALID_RANGES
      = list_all (\<lambda>(col, lo, hi). get_val (rows (classified v) ! i) col = NaN) VALID_RANGES"
    by (rule all_salvaged_iff) (rule f(3))
  then show ?thesis
    by (simp add: f(5) f(6) expected_reasons_def)
qed

lemma normalize_sample:
  "map (\<lambda>c. lower (strip c)) [''Trip_ID'', '' timestamp'', ''speed'', ''voltage'']
    = [''trip_id'', ''timestamp'', ''speed'', ''voltage'']"
  by (simp add: lower_def strip_def is_space_def lower_char_def)

lemma rename_map_sample:
  "map (rename (rename_map [''trip_id'', ''timestamp'', ''speed'', ''voltage'']))
      [''trip_id'', ''timestamp'', ''speed'', ''voltage'']
    = [''trip_id'', ''timestamp'', ''speed_kmph'', ''battery_voltage'']"
  by (simp add: rename_map_def rename_def COLUMN_ALIASES_def)

lemma resolved_sample_chunk:
  "resolved sample_chunk =
    \<lparr>columns = [''trip_id'', ''timestamp'', ''speed_kmph'', ''battery_voltage''],
     rows = [[(''trip_id'', Str ''A''), (''timestamp'', Str ''1970-01-01 00:00:00''),
              (''speed_kmph'', Num 50), (''battery_voltage'', Num 5000)],
             [(''trip_id'', NaN), (''timestamp'', Str ''yesterday''),
              (''speed_kmph'', NaN), (''battery_voltage'', Str ''n/a'')]]\<rparr>"
proof -
  have n: "lower (strip ''Trip_ID'') = ''trip_id''" "lower (strip '' timestamp'') = ''timestamp''"
    "lower (strip ''speed'') = ''speed''" "lower (strip ''voltage'') = ''voltage''"
    using normalize_sample by simp_all
  have "normalize_columns sample_chunk =
    \<lparr>columns = [''trip_id'', ''timestamp'', ''speed'', ''voltage''],
     rows = [[(''trip_id'', Str ''A''), (''timestamp'', Str ''1970-01-01 00:00:00''),
              (''speed'', Num 50), (''voltage'', Num 5000)],
             [(''trip_id'', NaN), (''timestamp'', Str ''yesterday''),
              (''speed'', NaN), (''voltage'', Str ''n/a'')]]\<rparr>"
    by (simp add: normalize_columns_def rename_columns_def sample_chunk_def mk_frame_def
        line_row_def n)
  moreover have r: "rename (rename_map [''trip_id'', ''timestamp'', ''speed'', ''voltage'']) ''trip_id'' = ''trip_id''"
    "rename (rename_map [''trip_id'', ''timestamp'', ''speed'', ''voltage'']) ''timestamp'' = ''timestamp''"
    "rename (rename_map [''trip_id'', ''timestamp'', ''speed'', ''voltage'']) ''speed'' = ''speed_kmph''"
    "rename (rename_map [''trip_id'', ''timestamp'', ''speed'', ''voltage'']) ''voltage'' = ''battery_voltage''"
    using rename_map_sample by simp_all
  ultimately show ?thesis
    by (simp add: resolved_def resolve_columns_def rename_columns_def r)
qed

lemma well_formed_sample_chunk: "well_formed sample_chunk"
  by (simp add: well_formed_def sample_chunk_def mk_frame_def line_row_def)

lemma validate_sample_chunk: "\<exists>v. validate_chunk sample_pandas sample_chunk = Inr v"
proof -
  have "\<not> duplicated (columns (resolved sample_chunk)) selected"
    by (simp add: resolved_sample_chunk duplicated_def selected_def REQUIRED_COLUMNS_def)
  then show ?thesis
    by (simp add: validate_chunk_rows Let_def resolved_def)
qed

theorem rejected_iff_witness:
  "\<exists>v. validate_chunk sample_pandas sample_chunk = Inr v
     \<and> (get_val (rows (classified v) ! 1) ''validation_status'' = Str ''rejected'' \<longleftrightarrow>
          get_val (rows (resolved sample_chunk) ! 1) ''trip_id'' = NaN
          \<or> datetime_cell sample_pandas (series (resolved sample_chunk) ''timestamp'')
                (get_val (rows (resolved sample_chunk) ! 1) ''timestamp'') = NaN
          \<or> list_all (\<lambda>(col, lo, hi). get_val (rows (classified v) ! 1) col = NaN) VALID_RANGES)
     \<and> (get_val (rows (classified v) ! 1) ''validation_status'' = Str ''rejected'' \<longleftrightarrow>
          get_val (rows (classified v) ! 1) ''rejection_reasons'' \<noteq> Str [])
     \<and> get_val (rows (resolved sample_chunk) ! 1) ''trip_id'' = NaN"
proof -
  obtain v where v: "validate_chunk sample_pandas sample_chunk = Inr v"
    using validate_sample_chunk by blast
  have i: "1 < length (rows sample_chunk)"
    by (simp add: sample_chunk_def mk_frame_def)
  have t: "get_val (rows (resolved sample_chunk) ! 1) ''trip_id'' = NaN"
    by (simp add: resolved_sample_chunk get_val_def)
  from rejected_iff [OF v well_formed_sample_chunk i] v t show ?thesis
    by blast
qed

section \<open>Conservation of rows\<close>

text \<open>
  C7. The validated and the rejected part of a chunk together hold as many rows as the
  chunk: each row of the classified chunk is in exactly one of the two parts.
\<close>

theorem no_row_dropped:
  assumes "validate_chunk pd chunk = Inr v"
  shows "length (rows (valid_part v)) + length (rows (rejected_part v)) = length (rows chunk)
    \<and> length (rows (classified v)) = length (rows chunk)
    \<and> mset (rows (valid_part v)) + mset (rows (rejected_part v)) = mset (rows (classified v))"
proof -
  note p = validate_chunk_Inr [OF assms]
  define rs where "rs = map (classify_row pd (timestamps_of (resolved chunk)) (columns (resolved chunk))) (rows (resolved chunk))"
  have r: "rows (classified v) = rs" "rows (valid_part v) = filter (\<lambda>r. \<not> is_rejected r) rs"
    "rows (rejected_part v) = filter is_rejected rs"
    unfolding p rs_def by simp_all
  have "length (filter (\<lambda>r. \<not> is_rejected r) rs) + length (filter is_rejected rs) = length rs"
    by (induction rs) auto
  moreover have "length rs = length (rows chunk)"
    by (simp add: rs_def)
  moreover have "mset (filter (\<lambda>r. \<not> is_rejected r) rs) + mset (filter is_rejected rs) = mset rs"
    by (induction rs) auto
  ultimately show ?thesis
    unfolding r by simp
qed

theorem no_row_dropped_witness:
  "\<exists>v. validate_chunk sample_pandas sample_chunk = Inr v
    \<and> length (rows (valid_part v)) + length (rows (rejected_part v)) = length (rows sample_chunk)
    \<and> length (rows (classified v)) = length (rows sample_chunk)
    \<and> mset (rows (valid_part v)) + mset (rows (rejected_part v)) = mset (rows (classified v))"
proof -
  obtain v where v: "validate_chunk sample_pandas sample_chunk = Inr v"
    using validate_sample_chunk by blast
  from no_row_dropped [OF v] v show ?thesis
    by blast
qed

section \<open>Salvage notes\<close>

lemma sublist_concat_map:
  assumes "x \<in> set xs"
  shows "sublist (f x) (concat (map f xs))"
proof -
  from assms obtain as bs where "xs = as @ x # bs"
    by (auto simp: in_set_conv_decomp)
  then have "concat (map f xs) = concat (map f as) @ f x @ concat (map f bs)"
    by simp
  then show ?thesis
    unfolding sublist_def by blast
qed

lemma note_recorded:
  assumes "(col, lo, hi) \<in> set VALID_RANGES"
    and "\<not> in_range lo hi (numeric_cell pd (get_val r col))"
  shows "sublist (salvage_tag col) (expected_notes pd r)"
proof -
  let ?f = "\<lambda>(col, lo, hi).
    if in_range lo hi (numeric_cell pd (get_val r col)) then [] else salvage_tag col"
  have "sublist (?f (col, lo, hi)) (concat (map ?f VALID_RANGES))"
    using assms(1) by (rule sublist_concat_map)
  with assms(2) show ?thesis
    by (simp add: expected_notes_def)
qed

text \<open>
  C8. When the coerced value of a sensor column lies outside the column's inclusive
  range in row \<open>i\<close>, the stored value of that row is missing and its \<open>salvage_notes\<close>
  contains the tag of the column. The salvage adds nothing else to the row:

  \<^item> the row is rejected exactly when its \<open>trip_id\<close> is missing, its timestamp does not
    parse, or all its sensor columns are missing after the salvage, and its
    \<open>rejection_reasons\<close> are these three reasons and no other;
  \<^item> \<open>salvage_notes\<close> holds the tags of the sensor columns whose coerced value is
    missing or outside its range, in the order of \<open>VALID_RANGES\<close>, and no tag of a
    column whose value is within its range;
  \<^item> a sensor column whose coerced value is within its range keeps that value, and a
    row that has such a column next to the one out of range, a \<open>trip_id\<close> and a
    timestamp that parses stays \<open>valid\<close> with empty \<open>rejection_reasons\<close>.
\<close>

theorem out_of_range_salvaged:
  assumes "validate_chunk pd chunk = Inr v"
    and "well_formed chunk"
    and "i < length (rows chunk)"
    and "(col, lo, hi) \<in> set VALID_RANGES"
    and "numeric_cell pd (get_val (rows (resolved chunk) ! i) col) = Num x"
    and "x < lo \<or> hi < x"
  shows "get_val (rows (classified v) ! i) col = NaN
    \<and> (\<exists>notes. get_val (rows (classified v) ! i) ''salvage_notes'' = Str notes
          \<and> sublist (salvage_tag col) notes)
    \<and> (get_val (rows (classified v) ! i) ''validation_status'' =
          (if get_val (rows (resolved chunk) ! i) ''trip_id'' = NaN
              \<or> datetime_cell pd (series (resolved chunk) ''timestamp'')
                (get_val (rows (resolved chunk) ! i) ''timestamp'') = NaN
              \<or> list_all (\<lambda>(c, l, h). get_val (rows (classified v) ! i) c = NaN) VALID_RANGES
           then Str ''rejected'' else Str ''valid''))
    \<and> get_val (rows (classified v) ! i) ''rejection_reasons'' =
          Str ((if get_val (rows (resolved chunk) ! i) ''trip_id'' = NaN
                then ''|missing_trip_id'' else [])
             @ (if datetime_cell pd (series (resolved chunk) ''timestamp'')
                    (get_val (rows (resolved chunk) ! i) ''timestamp'') = NaN
                then ''|invalid_timestamp'' else [])
             @ (if list_all (\<lambda>(c, l, h). get_val (rows (classified v) ! i) c = NaN) VALID_RANGES
                then ''|all_sensors_invalid'' else []))
    \<and> get_val (rows (classified v) ! i) ''salvage_notes'' =
          Str (concat (map (\<lambda>(c, l, h).
                 case numeric_cell pd (get_val (rows (resolved chunk) ! i) c) of
                   Num y \<Rightarrow> if l \<le> y \<and> y \<le> h then [] else salvage_tag c
                 | _ \<Rightarrow> salvage_tag c) VALID_RANGES))
    \<and> (\<forall>c l h y. (c, l, h) \<in> set VALID_RANGES
          \<and> numeric_cell pd (get_val (rows (resolved chunk) ! i) c) = Num y
          \<and> l \<le> y \<and> y \<le> h \<longrightarrow>
          get_val (rows (classified v) ! i) c = Num y
          \<and> (get_val (rows (resolved chunk) ! i) ''trip_id'' \<noteq> NaN
              \<and> datetime_cell pd (series (resolved chunk) ''timestamp'')
                    (get_val (rows (resolved chunk) ! i) ''timestamp'') \<noteq> NaN \<longrightarrow>
              get_val (rows (classified v) ! i) ''validation_status'' = Str ''valid''
              \<and> get_val (rows (classified v) ! i) ''rejection_reasons'' = Str []))"
proof -
  let ?r = "rows (resolved chunk) ! i"
  let ?r' = "rows (classified v) ! i"
  let ?ts = "series (resolved chunk) ''timestamp''"
  note f = classify_row_fields [OF classified_row(2) [OF assms(1-3)], where pd = pd
      and ts = ?ts, folded classified_row(1) [OF assms(1-3)]]
  have out: "\<not> in_range lo hi (numeric_cell pd (get_val ?r col))"
    using assms(5,6) by (auto simp: in_range_def)
  have a: "get_val ?r' col = NaN"
    using out by (simp add: f(3) [OF assms(4)] salvaged_def)
  have b: "sublist (salvage_tag col) (expected_notes pd ?r)"
    using assms(4) out by (rule note_recorded)
  have all: "list_all (\<lambda>(col, lo, hi). salvaged pd lo hi (get_val ?r col) = NaN) VALID_RANGES
      = list_all (\<lambda>(col, lo, hi). get_val ?r' col = NaN) VALID_RANGES"
    by (rule all_salvaged_iff) (rule f(3))
  have reasons: "expected_reasons pd ?ts ?r =
      (if get_val ?r ''trip_id'' = NaN then ''|missing_trip_id'' else [])
      @ (if datetime_cell pd ?ts (get_val ?r ''timestamp'') = NaN then ''|invalid_timestamp'' else [])
      @ (if list_all (\<lambda>(c, l, h). get_val ?r' c = NaN) VALID_RANGES
         then ''|all_sensors_invalid'' else [])"
    unfolding expected_reasons_def all ..
  have nt: "expected_notes pd ?r =
      concat (map (\<lambda>(c, l, h).
                 case numeric_cell pd (get_val ?r c) of
                   Num y \<Rightarrow> if l \<le> y \<and> y \<le> h then [] else salvage_tag c
                 | _ \<Rightarrow> salvage_tag c) VALID_RANGES)"
    unfolding expected_notes_def
    by (intro arg_cong [where f = concat] map_cong refl)
      (auto simp: in_range_def split: val.splits)
  have s: "get_val ?r' ''validation_status'' =
      (if get_val ?r ''trip_id'' = NaN
          \<or> datetime_cell pd ?ts (get_val ?r ''timestamp'') = NaN
          \<or> list_all (\<lambda>(c, l, h). get_val ?r' c = NaN) VALID_RANGES
       then Str ''rejected'' else Str ''valid'')"
    by (simp add: f(6) reasons)
  have r: "get_val ?r' ''rejection_reasons'' =
      Str ((if get_val ?r ''trip_id'' = NaN then ''|missing_trip_id'' else [])
         @ (if datetime_cell pd ?ts (get_val ?r ''timestamp'') = NaN
            then ''|invalid_timestamp'' else [])
         @ (if list_all (\<lambda>(c, l, h). get_val ?r' c = NaN) VALID_RANGES
            then ''|all_sensors_invalid'' else []))"
    by (simp only: f(5) reasons)
  have n: "get_val ?r' ''salvage_notes'' =
      Str (concat (map (\<lambda>(c, l, h).
                 case numeric_cell pd (get_val ?r c) of
                   Num y \<Rightarrow> if l \<le> y \<and> y \<le> h then [] else salvage_tag c
                 | _ \<Rightarrow> salvage_tag c) VALID_RANGES))"
    by (simp only: f(4) nt)
  have e: "\<exists>notes. get_val ?r' ''salvage_notes'' = Str notes \<and> sublist (salvage_tag col) notes"
    using b by (simp add: f(4))
  have k: "\<forall>c l h y. (c, l, h) \<in> set VALID_RANGES
          \<and> numeric_cell pd (get_val ?r c) = Num y \<and> l \<le> y \<and> y \<le> h \<longrightarrow>
          get_val ?r' c = Num y
          \<and> (get_val ?r ''trip_id'' \<noteq> NaN
              \<and> datetime_cell pd ?ts (get_val ?r ''timestamp'') \<noteq> NaN \<longrightarrow>
              get_val ?r' ''validation_status'' = Str ''valid''
              \<and> get_val ?r' ''rejection_reasons'' = Str [])"
  proof (intro allI impI, elim conjE)
    fix c l h y
    assume m: "(c, l, h) \<in> set VALID_RANGES"
      and y: "numeric_cell pd (get_val ?r c) = Num y" "l \<le> y" "y \<le> h"
    have kept: "get_val ?r' c = Num y"
      using y by (simp add: f(3) [OF m] salvaged_def in_range_def)
    have "\<not> list_all (\<lambda>(c, l, h). get_val ?r' c = NaN) VALID_RANGES"
      using m kept unfolding list_all_iff by fastforce
    then have "get_val ?r ''trip_id'' \<noteq> NaN
        \<and> datetime_cell pd ?ts (get_val ?r ''timestamp'') \<noteq> NaN \<longrightarrow>
        expected_reasons pd ?ts ?r = []"
      by (simp add: reasons)
    then show "get_val ?r' c = Num y
          \<and> (get_val ?r ''trip_id'' \<noteq> NaN
              \<and> datetime_cell pd ?ts (get_val ?r ''timestamp'') \<noteq> NaN \<longrightarrow>
              get_val ?r' ''validation_status'' = Str ''valid''
              \<and> get_val ?r' ''rejection_reasons'' = Str [])"
      using kept by (simp add: f(5) f(6))
  qed
  from a e s r n k show ?thesis
    by (intro conjI)
qed

theorem out_of_range_salvaged_witness:
  "\<exists>v. validate_chunk sample_pandas sample_chunk = Inr v
    \<and> numeric_cell sample_pandas (get_val (rows (resolved sample_chunk) ! 0) ''battery_voltage'')
        = Num 5000
    \<and> numeric_cell sample_pandas (get_val (rows (resolved sample_chunk) ! 0) ''speed_kmph'')
        = Num 50
    \<and> get_val (rows (classified v) ! 0) ''battery_voltage'' = NaN
    \<and> get_val (rows (classified v) ! 0) ''speed_kmph'' = Num 50
    \<and> get_val (rows (classified v) ! 0) ''salvage_notes'' =
        Str (''|battery_voltage_out_of_range|battery_current_out_of_range''
           @ ''|soc_percent_out_of_range|motor_temp_c_out_of_range|cell_temp_c_out_of_range'')
    \<and> get_val (rows (classified v) ! 0) ''rejection_reasons'' = Str []
    \<and> get_val (rows (classified v) ! 0) ''validation_status'' = Str ''valid''"
proof -
  let ?r = "rows (resolved sample_chunk) ! 0"
  obtain v where v: "validate_chunk sample_pandas sample_chunk = Inr v"
    using validate_sample_chunk by blast
  have i: "0 < length (rows sample_chunk)"
    by (simp add: sample_chunk_def mk_frame_def)
  have m: "(''battery_voltage'', 200, 1000) \<in> set VALID_RANGES"
    and m': "(''speed_kmph'', 0, 250) \<in> set VALID_RANGES"
    by (simp_all add: VALID_RANGES_def)
  have n: "numeric_cell sample_pandas (get_val ?r ''battery_voltage'') = Num 5000"
    and n': "numeric_cell sample_pandas (get_val ?r ''speed_kmph'') = Num 50"
    by (simp_all add: resolved_sample_chunk get_val_def numeric_cell_def sample_pandas_def
        cell_wise_def)
  have x: "(5000 :: rat) < 200 \<or> 1000 < (5000 :: rat)"
    by simp
  have t: "get_val ?r ''trip_id'' \<noteq> NaN"
    "datetime_cell sample_pandas (series (resolved sample_chunk) ''timestamp'')
      (get_val ?r ''timestamp'') \<noteq> NaN"
    by (simp_all add: resolved_sample_chunk get_val_def datetime_cell_def sample_pandas_def
        cell_wise_def)
  have c: "concat (map (\<lambda>(c, l, h).
               case numeric_cell sample_pandas (get_val ?r c) of
                 Num y \<Rightarrow> if l \<le> y \<and> y \<le> h then [] else salvage_tag c
               | _ \<Rightarrow> salvage_tag c) VALID_RANGES)
      = ''|battery_voltage_out_of_range|battery_current_out_of_range''
        @ ''|soc_percent_out_of_range|motor_temp_c_out_of_range|cell_temp_c_out_of_range''"
    by (simp add: resolved_sample_chunk VALID_RANGES_def get_val_def numeric_cell_def
        sample_pandas_def cell_wise_def salvage_tag_def)
  note o = out_of_range_salvaged [OF v well_formed_sample_chunk i m n x]
  from o have "get_val (rows (classified v) ! 0) ''battery_voltage'' = NaN"
    by blast
  moreover from o c have "get_val (rows (classified v) ! 0) ''salvage_notes'' =
        Str (''|battery_voltage_out_of_range|battery_current_out_of_range''
           @ ''|soc_percent_out_of_range|motor_temp_c_out_of_range|cell_temp_c_out_of_range'')"
    by (simp only:)
  moreover from o m' n' t have "get_val (rows (classified v) ! 0) ''speed_kmph'' = Num 50
      \<and> get_val (rows (classified v) ! 0) ''validation_status'' = Str ''valid''
      \<and> get_val (rows (classified v) ! 0) ''rejection_reasons'' = Str []"
    by force
  ultimately show ?thesis
    using v n n' by blast
qed

text \<open>
  C10. A sensor cell that is missing after coercion (the column was absent and
  back-filled, the cell was empty, or its text is not a number) is not between the
  bounds either, so the row gets the \<open>_out_of_range\<close> note of that column as well. A row
  whose sensor cells are all missing after coercion carries the six notes, in the order
  of \<open>VALID_RANGES\<close>, ends with the reason \<open>all_sensors_invalid\<close> and is rejected.
\<close>

theorem missing_sensor_noted:
  assumes "validate_chunk pd chunk = Inr v"
    and "well_formed chunk"
    and "i < length (rows chunk)"
    and "(col, lo, hi) \<in> set VALID_RANGES"
    and "numeric_cell pd (get_val (rows (resolved chunk) ! i) col) = NaN"
  shows "get_val (rows (classified v) ! i) col = NaN
    \<and> (\<exists>notes. get_val (rows (classified v) ! i) ''salvage_notes'' = Str notes
          \<and> sublist (salvage_tag col) notes)
    \<and> (list_all (\<lambda>(c, l, h). numeric_cell pd (get_val (rows (resolved chunk) ! i) c) = NaN)
          VALID_RANGES \<longrightarrow>
        get_val (rows (classified v) ! i) ''salvage_notes''
          = Str (concat (map (\<lambda>(c, l, h). salvage_tag c) VALID_RANGES))
        \<and> (\<exists>reasons. get_val (rows (classified v) ! i) ''rejection_reasons'' = Str reasons
              \<and> suffix ''|all_sensors_invalid'' reasons)
        \<and> get_val (rows (classified v) ! i) ''validation_status'' = Str ''rejected'')"
proof -
  let ?r = "rows (resolved chunk) ! i"
  note f = classify_row_fields [OF classified_row(2) [OF assms(1-3)], where pd = pd
      and ts = "series (resolved chunk) ''timestamp''",
      folded classified_row(1) [OF assms(1-3)]]
  have out: "\<not> in_range lo hi (numeric_cell pd (get_val ?r col))"
    using assms(5) by (simp add: in_range_def)
  have a: "get_val (rows (classified v) ! i) col = NaN"
    using out by (simp add: f(3) [OF assms(4)] salvaged_def)
  have b: "sublist (salvage_tag col) (expected_notes pd ?r)"
    using assms(4) out by (rule note_recorded)
  have c: "expected_notes pd ?r = concat (map (\<lambda>(c, l, h). salvage_tag c) VALID_RANGES)"
    and d: "suffix ''|all_sensors_invalid'' (expected_reasons pd (series (resolved chunk) ''timestamp'') ?r)"
    and e: "expected_reasons pd (series (resolved chunk) ''timestamp'') ?r \<noteq> []"
    if all: "list_all (\<lambda>(c, l, h). numeric_cell pd (get_val ?r c) = NaN) VALID_RANGES"
  proof -
    have n: "numeric_cell pd (get_val ?r c) = NaN" if "(c, l, h) \<in> set VALID_RANGES" for c l h
      using all that unfolding list_all_iff by fastforce
    show "expected_notes pd ?r = concat (map (\<lambda>(c, l, h). salvage_tag c) VALID_RANGES)"
      unfolding expected_notes_def
      by (intro arg_cong [where f = concat] map_cong refl) (auto simp: n in_range_def)
    have "list_all (\<lambda>(col, lo, hi). salvaged pd lo hi (get_val ?r col) = NaN) VALID_RANGES"
      unfolding list_all_iff by (auto simp: salvaged_def n in_range_def)
    then show "suffix ''|all_sensors_invalid'' (expected_reasons pd (series (resolved chunk) ''timestamp'') ?r)"
      and "expected_reasons pd (series (resolved chunk) ''timestamp'') ?r \<noteq> []"
      by (simp_all add: expected_reasons_def suffix_def)
  qed
  show ?thesis
    using a b c d e by (simp add: f(4) f(5) f(6))
qed

theorem missing_sensor_noted_witness:
  "\<exists>v. validate_chunk sample_pandas sample_chunk = Inr v
    \<and> list_all (\<lambda>(c, l, h).
          numeric_cell sample_pandas (get_val (rows (resolved sample_chunk) ! 1) c) = NaN)
        VALID_RANGES
    \<and> get_val (rows (classified v) ! 1) ''soc_percent'' = NaN
    \<and> (\<exists>notes. get_val (rows (classified v) ! 1) ''salvage_notes'' = Str notes
          \<and> sublist (salvage_tag ''soc_percent'') notes)
    \<and> get_val (rows (classified v) ! 1) ''salvage_notes''
          = Str (concat (map (\<lambda>(c, l, h). salvage_tag c) VALID_RANGES))
    \<and> (\<exists>reasons. get_val (rows (classified v) ! 1) ''rejection_reasons'' = Str reasons
          \<and> suffix ''|all_sensors_invalid'' reasons)
    \<and> get_val (rows (classified v) ! 1) ''validation_status'' = Str ''rejected''"
proof -
  obtain v where v: "validate_chunk sample_pandas sample_chunk = Inr v"
    using validate_sample_chunk by blast
  have i: "1 < length (rows sample_chunk)"
    by (simp add: sample_chunk_def mk_frame_def)
  have m: "(''soc_percent'', 0, 100) \<in> set VALID_RANGES"
    by (simp add: VALID_RANGES_def)
  have all: "list_all (\<lambda>(c, l, h).
      numeric_cell sample_pandas (get_val (rows (resolved sample_chunk) ! 1) c) = NaN) VALID_RANGES"
    by (simp add: resolved_sample_chunk VALID_RANGES_def get_val_def numeric_cell_def
        sample_pandas_def cell_wise_def)
  then have n: "numeric_cell sample_pandas (get_val (rows (resolved sample_chunk) ! 1) ''soc_percent'')
      = NaN"
    using m unfolding list_all_iff by fastforce
  from missing_sensor_noted [OF v well_formed_sample_chunk i m n] v all show ?thesis
    by blast
qed

section \<open>Runs under a cell-wise library\<close>

lemma lower_char_idem: "lower_char (lower_char c) = lower_char c"
  by (simp add: lower_char_def)

lemma is_space_lower_char: "is_space (lower_char c) = is_space c"
  by (simp add: lower_char_def is_space_def)

lemma lower_idem: "lower (lower s) = lower s"
  by (simp add: lower_def lower_char_idem)

lemma strip_lower: "strip (lower s) = lower (strip s)"
proof -
  have d: "dropWhile is_space (map lower_char t) = map lower_char (dropWhile is_space t)" for t
    by (simp add: dropWhile_map comp_def is_space_lower_char)
  show ?thesis
    by (simp add: strip_def lower_def d rev_map)
qed

lemma strip_idem: "strip (strip s) = strip s"
proof -
  define t where "t = dropWhile is_space s"
  define u where "u = rev (dropWhile is_space (rev t))"
  have t: "t = [] \<or> \<not> is_space (hd t)"
    unfolding t_def by (metis hd_dropWhile)
  have "rev t = takeWhile is_space (rev t) @ dropWhile is_space (rev t)"
    by simp
  then have "t = u @ rev (takeWhile is_space (rev t))"
    unfolding u_def by (metis rev_append rev_rev_ident)
  then obtain w where "t = u @ w" ..
  with t have "u = [] \<or> \<not> is_space (hd u)"
    by (cases u) auto
  then have "dropWhile is_space u = u"
    by (cases u) auto
  moreover have "dropWhile is_space (rev u) = rev u"
    by (simp add: u_def)
  ultimately show ?thesis
    by (simp add: strip_def t_def [symmetric] u_def [symmetric])
qed

lemma normalize_name_idem: "lower (strip (lower (strip c))) = lower (strip c)"
  by (simp add: strip_lower strip_idem lower_idem)

lemma normalize_columns_idem: "normalize_columns (normalize_columns df) = normalize_columns df"
  by (simp add: normalize_columns_def rename_columns_def normalize_name_idem
      case_prod_unfold comp_def)

lemma chunks_of_nonempty: "chunks_of n xs \<noteq> []"
  by (subst chunks_of.simps) simp

lemma concat_chunks_of: "concat (chunks_of n xs) = xs"
proof (induction n xs rule: chunks_of.induct)
  case (1 n xs)
  show ?case
  proof (cases "n = 0 \<or> length xs \<le> n")
    case True
    then show ?thesis by (subst chunks_of.simps) simp
  next
    case False
    with 1 show ?thesis by (subst chunks_of.simps) simp
  qed
qed

lemma validate_chunk_normalize:
  "validate_chunk pd (normalize_columns df) = validate_chunk pd df"
  by (simp add: validate_chunk_rows normalize_columns_idem timestamps_of_def)

lemma chunks_of_map: "chunks_of n (map f xs) = map (map f) (chunks_of n xs)"
proof (induction n xs rule: chunks_of.induct)
  case (1 n xs)
  show ?case
  proof (cases "n = 0 \<or> length xs \<le> n")
    case True
    then show ?thesis
      by (subst (1 2) chunks_of.simps) simp
  next
    case False
    with 1 show ?thesis
      by (subst (1 2) chunks_of.simps) (simp add: take_map drop_map)
  qed
qed

text \<open>A cell-wise library reads a line on its own, so a chunk is a frame of lines that
  are typed before they are put into chunks.\<close>

lemma read_cell_cell_wise:
  "read_cell (cell_wise rd dt num) s v = (if v = NaN then NaN else rd v)"
  by (simp add: read_cell_def cell_wise_def)

lemma read_chunk_cell_wise:
  "read_chunk (cell_wise rd dt num) h k lines
    = mk_frame h (map (\<lambda>l. map (\<lambda>i. if field l (k + i) = NaN then NaN else rd (field l (k + i)))
                              [0..<length h]) lines)"
  by (simp add: read_chunk_def read_cell_cell_wise)

lemma datetime_cell_cell_wise:
  "datetime_cell (cell_wise rd dt num) ts = datetime_cell (cell_wise rd dt num) []"
  by (simp add: datetime_cell_def cell_wise_def fun_eq_iff)

lemma classify_row_cell_wise:
  "classify_row (cell_wise rd dt num) ts cols r = classify_row (cell_wise rd dt num) [] cols r"
  by (simp only: classify_row_def datetime_cell_cell_wise [of rd dt num ts])

text \<open>Under one header and a cell-wise library the outcome of a chunk is fixed row by
  row: whether the run stops, the columns, and the classified row of each line depend on
  the header only.\<close>

lemma validate_chunk_mk_frame:
  fixes rd dt num
  defines "pd \<equiv> cell_wise rd dt num"
  shows "\<exists>D C G. \<forall>c. validate_chunk pd (mk_frame h c) =
      (if D then Inl DuplicateColumn
       else Inr \<lparr>classified = \<lparr>columns = C, rows = map G c\<rparr>,
                 valid_part = \<lparr>columns = C, rows = filter (\<lambda>r. \<not> is_rejected r) (map G c)\<rparr>,
                 rejected_part = \<lparr>columns = C, rows = filter is_rejected (map G c)\<rparr>\<rparr>)"
proof -
  define cols where "cols = columns (resolved (mk_frame h []))"
  define f where "f = (\<lambda>c. rename (rename_map (map (\<lambda>c. lower (strip c)) h)) (lower (strip c)))"
  have c: "columns (resolved (mk_frame h c)) = cols" for c
    by (simp add: cols_def resolved_def resolve_columns_def normalize_columns_def
        rename_columns_def mk_frame_def)
  have r: "rows (resolved (mk_frame h c)) = map (\<lambda>l. map (\<lambda>(k, v). (f k, v)) (line_row h l)) c"
    for c
    by (simp add: resolved_def resolve_columns_def normalize_columns_def rename_columns_def
        mk_frame_def f_def case_prod_unfold comp_def)
  have t: "classify_row pd (timestamps_of (resolved (mk_frame h c))) cols x
      = classify_row pd [] cols x" for c x
    unfolding pd_def by (rule classify_row_cell_wise)
  show ?thesis
    apply (rule exI [where x = "duplicated cols selected"])
    apply (rule exI [where x = "classify_columns cols"])
    apply (rule exI [where x = "\<lambda>l. classify_row pd [] cols (map (\<lambda>(k, v). (f k, v)) (line_row h l))"])
    apply (simp add: validate_chunk_rows Let_def resolved_def [symmetric] c r comp_def t)
    done
qed

lemma validate_all_mk_frame:
  assumes "\<forall>c. validate_chunk pd (mk_frame h c) =
      (if D then Inl DuplicateColumn
       else Inr \<lparr>classified = \<lparr>columns = C, rows = map G c\<rparr>,
                 valid_part = \<lparr>columns = C, rows = filter (\<lambda>r. \<not> is_rejected r) (map G c)\<rparr>,
                 rejected_part = \<lparr>columns = C, rows = filter is_rejected (map G c)\<rparr>\<rparr>)"
  shows "validate_all pd (map (mk_frame h) cs) =
      (if cs = [] then Inr ([], [])
       else if D then Inl DuplicateColumn
       else Inr (map (\<lambda>c. \<lparr>columns = C, rows = filter (\<lambda>r. \<not> is_rejected r) (map G c)\<rparr>) cs,
                 map (\<lambda>c. \<lparr>columns = C, rows = filter is_rejected (map G c)\<rparr>) cs))"
  by (induction cs) (simp_all add: assms)

lemma concat_frames_same_columns:
  "cs \<noteq> [] \<Longrightarrow>
    concat_frames (map (\<lambda>c. \<lparr>columns = C, rows = F c\<rparr>) cs) = \<lparr>columns = C, rows = concat (map F cs)\<rparr>"
  by (cases cs) (simp_all add: concat_frames_def comp_def)

lemma concat_frames_single: "concat_frames [f] = f"
  by (rule frame_eqI) (simp_all add: concat_frames_def)

lemma time_series_path_chunks:
  fixes rd dt num
  defines "pd \<equiv> cell_wise rd dt num"
  assumes "cs \<noteq> []"
  shows "time_series_path pd (map (mk_frame h) cs) = time_series_path pd [mk_frame h (concat cs)]"
proof -
  obtain D C G where v: "\<forall>c. validate_chunk pd (mk_frame h c) =
      (if D then Inl DuplicateColumn
       else Inr \<lparr>classified = \<lparr>columns = C, rows = map G c\<rparr>,
                 valid_part = \<lparr>columns = C, rows = filter (\<lambda>r. \<not> is_rejected r) (map G c)\<rparr>,
                 rejected_part = \<lparr>columns = C, rows = filter is_rejected (map G c)\<rparr>\<rparr>)"
    using validate_chunk_mk_frame [of rd dt num h] unfolding pd_def by blast
  note a = validate_all_mk_frame [OF v]
  have one: "[mk_frame h (concat cs)] = map (mk_frame h) [concat cs]"
    by simp
  have f: "concat (map (\<lambda>c. filter P (map G c)) cs) = filter P (map G (concat cs))" for P
    by (simp add: filter_concat map_concat comp_def)
  show ?thesis
    unfolding one time_series_path_def a
    using assms(2) by (simp add: concat_frames_same_columns f concat_frames_single)
qed

lemma time_series_path_first_normalized:
  "time_series_path pd (normalize_columns chunk # rest) = time_series_path pd (chunk # rest)"
  by (simp add: time_series_path_def validate_chunk_normalize)

lemma rows_normalize_mk_frame:
  "rows (normalize_columns (mk_frame h c))
    = map (\<lambda>l. map (\<lambda>(k, v). (lower (strip k), v)) (line_row h l)) c"
  by (simp add: normalize_columns_def rename_columns_def mk_frame_def)

lemma columns_normalize_mk_frame:
  "columns (normalize_columns (mk_frame h c)) = map (\<lambda>c. lower (strip c)) h"
  by (simp add: normalize_columns_def rename_columns_def mk_frame_def)

lemma trip_level_frame_chunks:
  "concat_frames (normalize_columns (mk_frame h c) # map normalize_columns (map (mk_frame h) cs))
    = normalize_columns (mk_frame h (concat (c # cs)))"
proof (rule frame_eqI)
  show "columns (concat_frames (normalize_columns (mk_frame h c)
        # map normalize_columns (map (mk_frame h) cs)))
      = columns (normalize_columns (mk_frame h (concat (c # cs))))"
    by (simp add: concat_frames_def columns_normalize_mk_frame)
  have "concat (map rows (map normalize_columns (map (mk_frame h) cs)))
      = map (\<lambda>l. map (\<lambda>(k, v). (lower (strip k), v)) (line_row h l)) (concat cs)"
    by (induction cs) (simp_all add: rows_normalize_mk_frame)
  then show "rows (concat_frames (normalize_columns (mk_frame h c)
        # map normalize_columns (map (mk_frame h) cs)))
      = rows (normalize_columns (mk_frame h (concat (c # cs))))"
    by (simp add: concat_frames_def rows_normalize_mk_frame)
qed

lemma trip_level_path_chunks:
  "trip_level_path (normalize_columns (mk_frame h c)) (map (mk_frame h) cs)
    = trip_level_path (normalize_columns (mk_frame h (concat (c # cs)))) []"
proof -
  have "concat_frames (normalize_columns (mk_frame h (concat (c # cs))) # map normalize_columns [])
      = normalize_columns (mk_frame h (concat (c # cs)))"
    by (rule frame_eqI) (simp_all add: concat_frames_def)
  then show ?thesis
    unfolding trip_level_path_def trip_level_frame_chunks by simp
qed

lemma process_data_single_chunk:
  fixes rd dt num
  defines "pd \<equiv> cell_wise rd dt num"
  assumes "0 < n"
  shows "process_data pd header lines n = single_chunk pd header lines"
proof (cases "header = [] \<or> list_ex (\<lambda>l. length header + leading header lines < length l) lines")
  case True
  with assms(2) show ?thesis
    by (auto simp: process_data_def read_csv_def single_chunk_def)
next
  case False
  define k where "k = leading header lines"
  define T where "T = (\<lambda>l. map (\<lambda>i. if field l (k + i) = NaN then NaN else rd (field l (k + i)))
      [0..<length header])"
  have rc: "read_chunk pd header k c = mk_frame header (map T c)" for c
    unfolding pd_def T_def by (rule read_chunk_cell_wise)
  obtain c cs where cs: "chunks_of n (map T lines) = c # cs"
    using chunks_of_nonempty [of n "map T lines"] by (cases "chunks_of n (map T lines)") auto
  have l: "concat (c # cs) = map T lines"
    using concat_chunks_of [of n "map T lines"] by (simp add: cs)
  have reader: "map (read_chunk pd header k) (chunks_of n lines) = map (mk_frame header) (c # cs)"
    by (simp add: rc [abs_def] cs [symmetric] chunks_of_map)
  have s: "is_trip_level_schema (normalize_columns (mk_frame header c))
      = is_trip_level_schema (normalize_columns (mk_frame header (map T lines)))"
    by (simp add: is_trip_level_schema_def columns_normalize_mk_frame)
  have t: "time_series_path pd (normalize_columns (mk_frame header c) # map (mk_frame header) cs)
      = time_series_path pd [normalize_columns (mk_frame header (map T lines))]"
  proof -
    have "time_series_path pd (normalize_columns (mk_frame header c) # map (mk_frame header) cs)
        = time_series_path pd (map (mk_frame header) (c # cs))"
      by (simp add: time_series_path_first_normalized)
    also have "\<dots> = time_series_path pd [mk_frame header (concat (c # cs))]"
      unfolding pd_def by (rule time_series_path_chunks) simp
    also have "\<dots> = time_series_path pd [normalize_columns (mk_frame header (map T lines))]"
      by (simp only: l time_series_path_first_normalized)
    finally show ?thesis .
  qed
  from False assms(2) show ?thesis
    by (simp add: process_data_def read_csv_def single_chunk_def k_def [symmetric] reader rc
        Let_def s t trip_level_path_chunks [of header c cs, unfolded l])
qed

lemma chunks_of_single: "length xs \<le> n \<Longrightarrow> chunks_of n xs = [xs]"
  by (subst chunks_of.simps) simp

text \<open>The fields of a line that is not longer than the header, read by a library that
  delivers every field as it is, give the row of the line.\<close>

lemma fields_of_line:
  assumes "length l \<le> n"
  shows "map (field l) [0..<n] = l @ replicate (n - length l) NaN"
  using assms by (intro nth_equalityI) (auto simp: field_def nth_append)

lemma read_chunk_as_written:
  assumes "list_all (\<lambda>l. length l \<le> length h) lines"
  shows "read_chunk (cell_wise (\<lambda>v. v) dt num) h 0 lines = mk_frame h lines"
proof -
  have "line_row h (map (field l) [0..<length h]) = line_row h l" if "length l \<le> length h" for l
    using that by (simp add: fields_of_line line_row_def)
  then have "map (\<lambda>l. line_row h (map (field l) [0..<length h])) lines = map (line_row h) lines"
    using assms by (simp add: list_all_iff)
  then show ?thesis
    unfolding read_chunk_cell_wise by (simp add: mk_frame_def comp_def cong: if_cong)
qed

lemma leading_short:
  assumes "list_all (\<lambda>l. length l \<le> length h) lines"
  shows "leading h lines = 0"
  using assms by (cases lines) (simp_all add: leading_def)

text \<open>The run of an example file whose lines fit the header, read as it is written.\<close>

lemma process_data_as_written:
  assumes "0 < n" "h \<noteq> []" "list_all (\<lambda>l. length l \<le> length h) lines"
  shows "process_data (cell_wise (\<lambda>v. v) dt num) h lines n =
    (if is_trip_level_schema (normalize_columns (mk_frame h lines))
     then trip_level_path (normalize_columns (mk_frame h lines)) []
     else time_series_path (cell_wise (\<lambda>v. v) dt num) [mk_frame h lines])"
proof -
  have "\<not> list_ex (\<lambda>l. length h + leading h lines < length l) lines"
    using assms(3) by (auto simp: list_ex_iff list_all_iff leading_short [OF assms(3)])
  then show ?thesis
    using assms(1,2)
    by (simp add: process_data_single_chunk single_chunk_def leading_short [OF assms(3)]
        read_chunk_as_written [OF assms(3)] time_series_path_first_normalized)
qed

lemma sample_run:
  assumes "0 < n" "h \<noteq> []" "list_all (\<lambda>l. length l \<le> length h) lines"
  shows "process_data sample_pandas h lines n =
    (if is_trip_level_schema (normalize_columns (mk_frame h lines))
     then trip_level_path (normalize_columns (mk_frame h lines)) []
     else time_series_path sample_pandas [mk_frame h lines])"
  unfolding sample_pandas_def using assms by (rule process_data_as_written)

section \<open>Two samples of one trip\<close>

lemma normalize_scenario:
  "lower (strip ''trip_id'') = ''trip_id''" "lower (strip ''timestamp'') = ''timestamp''"
  "lower (strip ''speed_kmph'') = ''speed_kmph''"
  by (simp_all add: lower_def strip_def is_space_def lower_char_def)

lemma rename_scenario:
  "rename (rename_map [''trip_id'', ''timestamp'', ''speed_kmph'']) ''trip_id'' = ''trip_id''"
  "rename (rename_map [''trip_id'', ''timestamp'', ''speed_kmph'']) ''timestamp'' = ''timestamp''"
  "rename (rename_map [''trip_id'', ''timestamp'', ''speed_kmph'']) ''speed_kmph'' = ''speed_kmph''"
  by (simp_all add: rename_map_def rename_def COLUMN_ALIASES_def)

lemma resolved_scenario:
  "resolved (mk_frame scenario_header (two_samples s0 s1)) =
    \<lparr>columns = [''trip_id'', ''timestamp'', ''speed_kmph''],
     rows = [[(''trip_id'', Str ''A''), (''timestamp'', Str ''1970-01-01 00:00:00''),
              (''speed_kmph'', Num s0)],
             [(''trip_id'', Str ''A''), (''timestamp'', Str ''1970-01-01 00:10:00''),
              (''speed_kmph'', Num s1)]]\<rparr>"
  by (simp add: resolved_def resolve_columns_def normalize_columns_def rename_columns_def
      mk_frame_def line_row_def scenario_header_def two_samples_def normalize_scenario
      rename_scenario)

lemma sort_two_rows:
  assumes "get_val a c = Time ta" "get_val b c = Time tb" "ta \<le> tb"
  shows "sort_key (\<lambda>r. val_key (get_val r c)) [a, b] = [a, b]"
  using assms by (simp add: val_key_def)

text \<open>The metrics of a trip of two samples at instants \<open>ta \<le> tb\<close> with speeds \<open>sa\<close> and
  \<open>sb\<close>: the one delta is weighted by the speed of the later sample.\<close>

lemma trip_metrics_two_rows:
  assumes "get_val a ''timestamp'' = Time ta" "get_val b ''timestamp'' = Time tb" "ta \<le> tb"
    and "get_val a ''speed_kmph'' = Num sa" "get_val b ''speed_kmph'' = Num sb"
  shows "trip_metrics k \<lparr>columns = C, rows = [a, b]\<rparr> =
    [(''trip_id'', k),
     (''rows'', Num 2),
     (''duration_minutes'', Num ((tb - ta) / 60)),
     (''gap_count'', Num (if GAP_THRESHOLD_SEC < tb - ta then 1 else 0)),
     (''max_speed'', Num (max sb sa)),
     (''avg_speed'', Num ((sa + sb) / 2)),
     (''distance_km'', Num (sb * (tb - ta) / 3600)),
     (''max_motor_temp'', max_skipna [get_val a ''motor_temp_c'', get_val b ''motor_temp_c'']),
     (''max_cell_temp'', max_skipna [get_val a ''cell_temp_c'', get_val b ''cell_temp_c'']),
     (''min_battery_voltage'',
        min_skipna [get_val a ''battery_voltage'', get_val b ''battery_voltage'']),
     (''max_current'', max_skipna [get_val a ''battery_current'', get_val b ''battery_current''])]"
proof -
  have g: "sort_values ''timestamp'' \<lparr>columns = C, rows = [a, b]\<rparr> = \<lparr>columns = C, rows = [a, b]\<rparr>"
    by (simp add: sort_values_def sort_two_rows [OF assms(1-3)] del: sort_key_simps)
  have dt: "clip_lower 0 (diff_seconds (series \<lparr>columns = C, rows = [a, b]\<rparr> ''timestamp''))
      = [NaN, Num (tb - ta)]"
    using assms(1-3) by (simp add: series_def diff_seconds_def delta_def clip_lower_def)
  have sp: "series \<lparr>columns = C, rows = [a, b]\<rparr> ''speed_kmph'' = [Num sa, Num sb]"
    using assms(4,5) by (simp add: series_def)
  have other: "series \<lparr>columns = C, rows = [a, b]\<rparr> c = [get_val a c, get_val b c]" for c
    by (simp add: series_def)
  show ?thesis
    unfolding trip_metrics_def Let_def g dt sp
    by (simp add: other gt_def count_true_def sum_skipna_def nums_def fillna_def mul_def
        div_scalar_def max_skipna_def mean_skipna_def)
qed

lemma classify_columns_nonempty: "classify_columns cols \<noteq> []"
proof -
  have "set (classify_columns cols) = set addressed \<union> set cols"
    by (simp add: classify_columns_def set_fold_add_column)
  then have "''trip_id'' \<in> set (classify_columns cols)"
    by (simp add: addressed_def REQUIRED_COLUMNS_def)
  then show ?thesis by auto
qed

lemma groupby_one_trip:
  assumes "get_val a ''trip_id'' = k" "get_val b ''trip_id'' = k" "k \<noteq> NaN"
  shows "groupby ''trip_id'' \<lparr>columns = C, rows = [a, b]\<rparr> = [(k, \<lparr>columns = C, rows = [a, b]\<rparr>)]"
  using assms by (simp add: groupby_def series_def select_def)

lemma two_samples_raw_path:
  "process_data sample_pandas scenario_header (two_samples s0 s1) CHUNK_SIZE
    = time_series_path sample_pandas [mk_frame scenario_header (two_samples s0 s1)]"
proof -
  have "\<not> is_trip_level_schema (normalize_columns (mk_frame scenario_header (two_samples s0 s1)))"
    by (simp add: is_trip_level_schema_def columns_normalize_mk_frame scenario_header_def
        normalize_scenario trip_level_signals_def)
  then show ?thesis
    by (simp add: sample_run CHUNK_SIZE_def scenario_header_def two_samples_def)
qed

lemma two_samples_metrics:
  assumes "0 \<le> s0" "s0 \<le> 250" "0 \<le> s1" "s1 \<le> 250"
  shows "metrics_rows (process_data sample_pandas scenario_header (two_samples s0 s1) CHUNK_SIZE) =
    [[(''trip_id'', Str ''A''),
      (''rows'', Num 2),
      (''duration_minutes'', Num 10),
      (''gap_count'', Num 1),
      (''max_speed'', Num (max s1 s0)),
      (''avg_speed'', Num ((s0 + s1) / 2)),
      (''distance_km'', Num (s1 * 600 / 3600)),
      (''max_motor_temp'', NaN),
      (''max_cell_temp'', NaN),
      (''min_battery_voltage'', NaN),
      (''max_current'', NaN)]]"
proof -
  let ?pd = sample_pandas
  let ?h = "[''trip_id'', ''timestamp'', ''speed_kmph'']"
  let ?F = "mk_frame scenario_header (two_samples s0 s1)"
  define r0 :: row where "r0 = [(''trip_id'', Str ''A''),
      (''timestamp'', Str ''1970-01-01 00:00:00''), (''speed_kmph'', Num s0)]"
  define r1 :: row where "r1 = [(''trip_id'', Str ''A''),
      (''timestamp'', Str ''1970-01-01 00:10:00''), (''speed_kmph'', Num s1)]"
  define ts where "ts = timestamps_of \<lparr>columns = ?h, rows = [r0, r1]\<rparr>"
  define a where "a = classify_row ?pd ts ?h r0"
  define b where "b = classify_row ?pd ts ?h r1"
  define C where "C = classify_columns ?h"
  have res: "resolved ?F = \<lparr>columns = ?h, rows = [r0, r1]\<rparr>"
    by (simp add: resolved_scenario r0_def r1_def)
  have abs: "absent_is_na ?h r0" "absent_is_na ?h r1"
    by (simp_all add: absent_is_na_def REQUIRED_COLUMNS_def r0_def r1_def get_val_def)
  note fa = classify_row_fields [OF abs(1), where pd = ?pd and ts = ts, folded a_def]
  note fb = classify_row_fields [OF abs(2), where pd = ?pd and ts = ts, folded b_def]
  have speed: "(''speed_kmph'', 0, 250) \<in> set VALID_RANGES"
    and mt: "(''motor_temp_c'', - 40, 200) \<in> set VALID_RANGES"
    and ct: "(''cell_temp_c'', - 40, 100) \<in> set VALID_RANGES"
    and bv: "(''battery_voltage'', 200, 1000) \<in> set VALID_RANGES"
    and bc: "(''battery_current'', - 500, 500) \<in> set VALID_RANGES"
    by (simp_all add: VALID_RANGES_def)
  have in0: "get_val r0 ''trip_id'' = Str ''A''"
    "datetime_cell ?pd ts (get_val r0 ''timestamp'') = Time 0"
    "salvaged ?pd 0 250 (get_val r0 ''speed_kmph'') = Num s0"
    "salvaged ?pd (- 40) 200 (get_val r0 ''motor_temp_c'') = NaN"
    "salvaged ?pd (- 40) 100 (get_val r0 ''cell_temp_c'') = NaN"
    "salvaged ?pd 200 1000 (get_val r0 ''battery_voltage'') = NaN"
    "salvaged ?pd (- 500) 500 (get_val r0 ''battery_current'') = NaN"
    using assms
    by (simp_all add: r0_def get_val_def datetime_cell_def sample_pandas_def cell_wise_def salvaged_def
        numeric_cell_def in_range_def)
  have in1: "get_val r1 ''trip_id'' = Str ''A''"
    "datetime_cell ?pd ts (get_val r1 ''timestamp'') = Time 600"
    "salvaged ?pd 0 250 (get_val r1 ''speed_kmph'') = Num s1"
    "salvaged ?pd (- 40) 200 (get_val r1 ''motor_temp_c'') = NaN"
    "salvaged ?pd (- 40) 100 (get_val r1 ''cell_temp_c'') = NaN"
    "salvaged ?pd 200 1000 (get_val r1 ''battery_voltage'') = NaN"
    "salvaged ?pd (- 500) 500 (get_val r1 ''battery_current'') = NaN"
    using assms
    by (simp_all add: r1_def get_val_def datetime_cell_def sample_pandas_def cell_wise_def salvaged_def
        numeric_cell_def in_range_def)
  have ok: "expected_reasons ?pd ts r0 = []" "expected_reasons ?pd ts r1 = []"
    by (simp_all add: expected_reasons_def in0 in1 VALID_RANGES_def)
  have rej: "\<not> is_rejected a" "\<not> is_rejected b"
    by (simp_all add: is_rejected_def fa(5) fb(5) ok)
  have dup: "\<not> duplicated ?h selected"
    by (simp add: duplicated_def selected_def REQUIRED_COLUMNS_def)
  have "validate_chunk ?pd ?F =
      Inr \<lparr>classified = \<lparr>columns = C, rows = [a, b]\<rparr>,
            valid_part = \<lparr>columns = C, rows = [a, b]\<rparr>,
            rejected_part = \<lparr>columns = C, rows = []\<rparr>\<rparr>"
    unfolding validate_chunk_rows resolved_def [symmetric] res
    by (simp add: Let_def dup rej ts_def [symmetric] a_def [symmetric] b_def [symmetric]
        C_def [symmetric])
  then have cleaned: "time_series_path ?pd [?F] =
      Inr \<lparr>cleaned_telematics = \<lparr>columns = C, rows = [a, b]\<rparr>,
            rejected_telematics = Some \<lparr>columns = C, rows = []\<rparr>,
            trip_metrics_csv = DataFrame (aggregate \<lparr>columns = C, rows = [a, b]\<rparr>)\<rparr>"
    by (simp add: time_series_path_def concat_frames_single Let_def)
  have "C \<noteq> []"
    unfolding C_def by (rule classify_columns_nonempty)
  then have "aggregate \<lparr>columns = C, rows = [a, b]\<rparr>
      = [trip_metrics (Str ''A'') \<lparr>columns = C, rows = [a, b]\<rparr>]"
    by (simp add: aggregate_def frame_empty_def
        groupby_one_trip [of a "Str ''A''" b] fa(1) fb(1) in0(1) in1(1))
  also have "trip_metrics (Str ''A'') \<lparr>columns = C, rows = [a, b]\<rparr> =
     [(''trip_id'', Str ''A''),
      (''rows'', Num 2),
      (''duration_minutes'', Num 10),
      (''gap_count'', Num 1),
      (''max_speed'', Num (max s1 s0)),
      (''avg_speed'', Num ((s0 + s1) / 2)),
      (''distance_km'', Num (s1 * 600 / 3600)),
      (''max_motor_temp'', NaN),
      (''max_cell_temp'', NaN),
      (''min_battery_voltage'', NaN),
      (''max_current'', NaN)]"
    by (subst trip_metrics_two_rows [where ta = 0 and tb = 600 and sa = s0 and sb = s1])
      (simp_all add: fa(2) fb(2) in0 in1 fa(3) [OF speed] fb(3) [OF speed]
        fa(3) [OF mt] fb(3) [OF mt] fa(3) [OF ct] fb(3) [OF ct] fa(3) [OF bv] fb(3) [OF bv]
        fa(3) [OF bc] fb(3) [OF bc] GAP_THRESHOLD_SEC_def max_skipna_def min_skipna_def nums_def)
  finally have agg: "aggregate \<lparr>columns = C, rows = [a, b]\<rparr> =
    [[(''trip_id'', Str ''A''),
      (''rows'', Num 2),
      (''duration_minutes'', Num 10),
      (''gap_count'', Num 1),
      (''max_speed'', Num (max s1 s0)),
      (''avg_speed'', Num ((s0 + s1) / 2)),
      (''distance_km'', Num (s1 * 600 / 3600)),
      (''max_motor_temp'', NaN),
      (''max_cell_temp'', NaN),
      (''min_battery_voltage'', NaN),
      (''max_current'', NaN)]]" .
  show ?thesis
    by (simp add: two_samples_raw_path metrics_rows_def cleaned agg DataFrame_def)
qed

text \<open>
  C1 (as stated: \<open>distance_km = 50*600/3600\<close>). \<open>diff()\<close> puts the delta of 600 seconds
  on the second row, and the product \<open>speed_kmph * dt_sec\<close> is taken row by row, so the
  delta meets the speed 60 of the second sample: the run gives one metrics row, of
  trip \<open>A\<close>, with \<open>distance_km = 10\<close>, which is not \<open>50*600/3600\<close>.
\<close>

theorem scenario_distance_counterexample:
  "length (metrics_rows (process_data sample_pandas scenario_header (two_samples 50 60) CHUNK_SIZE)) = 1
   \<and> get_val (metrics_rows (process_data sample_pandas scenario_header (two_samples 50 60) CHUNK_SIZE) ! 0)
        ''trip_id'' = Str ''A''
   \<and> get_val (metrics_rows (process_data sample_pandas scenario_header (two_samples 50 60) CHUNK_SIZE) ! 0)
        ''distance_km'' = Num 10
   \<and> get_val (metrics_rows (process_data sample_pandas scenario_header (two_samples 50 60) CHUNK_SIZE) ! 0)
        ''distance_km'' \<noteq> Num (50 * 600 / 3600)"
  by (simp add: two_samples_metrics get_val_def)

text \<open>
  C1 (amended). For the two rows of trip \<open>A\<close> at 0 s and 600 s, whatever their two
  speeds within the valid range, the run gives one metrics row, of trip \<open>A\<close>, with
  \<open>gap_count = 1\<close>, \<open>duration_minutes = 10\<close> and \<open>distance_km\<close> the delta times the speed
  of the later sample over 3600; with the speeds 50 and 60 that is \<open>60*600/3600 = 10\<close>.
\<close>

theorem scenario_metrics_later_speed:
  assumes "0 \<le> s0" "s0 \<le> 250" "0 \<le> s1" "s1 \<le> 250"
  shows "length (metrics_rows (process_data sample_pandas scenario_header (two_samples s0 s1) CHUNK_SIZE)) = 1
   \<and> get_val (metrics_rows (process_data sample_pandas scenario_header (two_samples s0 s1) CHUNK_SIZE) ! 0)
        ''trip_id'' = Str ''A''
   \<and> get_val (metrics_rows (process_data sample_pandas scenario_header (two_samples s0 s1) CHUNK_SIZE) ! 0)
        ''gap_count'' = Num 1
   \<and> get_val (metrics_rows (process_data sample_pandas scenario_header (two_samples s0 s1) CHUNK_SIZE) ! 0)
        ''duration_minutes'' = Num 10
   \<and> get_val (metrics_rows (process_data sample_pandas scenario_header (two_samples s0 s1) CHUNK_SIZE) ! 0)
        ''distance_km'' = Num (s1 * 600 / 3600)"
  by (simp add: two_samples_metrics [OF assms] get_val_def)

theorem scenario_metrics_later_speed_witness:
  "length (metrics_rows (process_data sample_pandas scenario_header (two_samples 50 60) CHUNK_SIZE)) = 1
   \<and> get_val (metrics_rows (process_data sample_pandas scenario_header (two_samples 50 60) CHUNK_SIZE) ! 0)
        ''trip_id'' = Str ''A''
   \<and> get_val (metrics_rows (process_data sample_pandas scenario_header (two_samples 50 60) CHUNK_SIZE) ! 0)
        ''gap_count'' = Num 1
   \<and> get_val (metrics_rows (process_data sample_pandas scenario_header (two_samples 50 60) CHUNK_SIZE) ! 0)
        ''duration_minutes'' = Num 10
   \<and> get_val (metrics_rows (process_data sample_pandas scenario_header (two_samples 50 60) CHUNK_SIZE) ! 0)
        ''distance_km'' = Num (60 * 600 / 3600)"
  using scenario_metrics_later_speed [of 50 60] by simp

section \<open>The gap count\<close>

lemma classify_row_backfilled:
  "classify_row pd ts cols r
    = classify_row pd ts REQUIRED_COLUMNS (fold (row_backfill cols) REQUIRED_COLUMNS r)"
proof -
  have "fold (row_backfill REQUIRED_COLUMNS) xs x = x" if "set xs \<subseteq> set REQUIRED_COLUMNS"
    for xs x
    using that by (induction xs arbitrary: x) (simp_all add: row_backfill_def)
  then have "fold (row_backfill REQUIRED_COLUMNS) REQUIRED_COLUMNS x = x" for x
    by simp
  then show ?thesis
    by (simp only: classify_row_def)
qed

lemma datetime_cell_cases: "datetime_cell pd s v = NaN \<or> (\<exists>t. datetime_cell pd s v = Time t)"
  by (simp add: datetime_cell_def split: option.splits)

lemma valid_row_has_instant:
  assumes "\<not> is_rejected (classify_row pd ts cols r)"
  shows "\<exists>t. get_val (classify_row pd ts cols r) ''timestamp'' = Time t"
proof -
  define rb where "rb = fold (row_backfill cols) REQUIRED_COLUMNS r"
  have abs: "absent_is_na REQUIRED_COLUMNS rb"
    by (simp add: absent_is_na_def list_all_iff)
  note f = classify_row_fields [OF abs, where pd = pd and ts = ts,
      folded classify_row_backfilled [of pd ts cols r, unfolded rb_def [symmetric]]]
  from assms have "expected_reasons pd ts rb = []"
    by (simp add: is_rejected_def f(5))
  then have "datetime_cell pd ts (get_val rb ''timestamp'') \<noteq> NaN"
    by (auto simp: expected_reasons_def split: if_splits)
  with datetime_cell_cases [of pd ts "get_val rb ''timestamp''"] show ?thesis
    by (simp add: f(2))
qed

lemma valid_part_has_instant:
  assumes "validate_chunk pd chunk = Inr v" "r \<in> set (rows (valid_part v))"
  shows "has_instant r"
proof -
  from assms obtain r0 where
    "r = classify_row pd (timestamps_of (resolved chunk)) (columns (resolved chunk)) r0"
    "\<not> is_rejected r"
    by (auto simp: validate_chunk_Inr(2) [OF assms(1)])
  with valid_row_has_instant [of pd "timestamps_of (resolved chunk)" "columns (resolved chunk)" r0] show ?thesis
    by (auto simp: has_instant_def)
qed

lemma validate_all_has_instant:
  assumes "validate_all pd chunks = Inr (vs, rs)" "f \<in> set vs" "r \<in> set (rows f)"
  shows "has_instant r"
  using assms
proof (induction chunks arbitrary: vs rs)
  case Nil
  then show ?case by simp
next
  case (Cons c cs)
  from Cons.prems(1) obtain v vs' rs' where v: "validate_chunk pd c = Inr v"
    and a: "validate_all pd cs = Inr (vs', rs')" and vs: "vs = valid_part v # vs'"
    by (auto split: sum.splits)
  show ?case
  proof (cases "f = valid_part v")
    case True
    with v Cons.prems(3) show ?thesis by (auto intro: valid_part_has_instant)
  next
    case False
    with Cons.prems(2) vs have "f \<in> set vs'" by simp
    from Cons.IH [OF a this Cons.prems(3)] show ?thesis .
  qed
qed

lemma rows_concat_frames: "rows (concat_frames fs) = concat (map rows fs)"
  by (cases fs) (simp_all add: concat_frames_def)

lemma cleaned_has_instant:
  assumes "time_series_path pd chunks = Inr out" "r \<in> set (rows (cleaned_telematics out))"
  shows "has_instant r"
proof -
  from assms(1) obtain vs rs where a: "validate_all pd chunks = Inr (vs, rs)"
    and c: "cleaned_telematics out = concat_frames vs"
    by (auto simp: time_series_path_def Let_def split: sum.splits)
  from assms(2) obtain f where "f \<in> set vs" "r \<in> set (rows f)"
    by (auto simp: c rows_concat_frames)
  with a show ?thesis by (rule validate_all_has_instant)
qed

lemma metrics_row_of_group:
  assumes "time_series_path pd chunks = Inr out" "m \<in> set (rows (trip_metrics_csv out))"
  shows "\<exists>k. m = trip_metrics k
      (select (map (\<lambda>v. v = k) (series (cleaned_telematics out) ''trip_id''))
         (cleaned_telematics out))"
proof -
  from assms(1) have "trip_metrics_csv out = DataFrame (aggregate (cleaned_telematics out))"
    by (auto simp: time_series_path_def Let_def split: sum.splits)
  with assms(2) have "m \<in> set (aggregate (cleaned_telematics out))"
    by (simp add: DataFrame_def)
  then show ?thesis
    by (auto simp: aggregate_def groupby_def split: if_splits)
qed

lemma trip_id_of_trip_metrics: "get_val (trip_metrics k g) ''trip_id'' = k"
  by (simp add: trip_metrics_def Let_def get_val_def)

lemma gap_count_of_trip_metrics:
  "get_val (trip_metrics k g) ''gap_count''
    = Num (of_nat (count_true (gt (clip_lower 0
        (diff_seconds (series (sort_values ''timestamp'' g) ''timestamp''))) GAP_THRESHOLD_SEC)))"
  by (simp add: trip_metrics_def Let_def get_val_def)

lemma instants_Nil: "instants [] = []"
  by (simp add: instants_def)

lemma instants_Time: "instants (Time t # s) = t # instants s"
  by (simp add: instants_def)

lemma has_instantD: "has_instant r \<Longrightarrow> \<exists>t. get_val r ''timestamp'' = Time t"
  by (simp add: has_instant_def split: val.splits)

lemma series_of_instants:
  assumes "\<forall>r\<in>set (rows g). has_instant r"
  shows "series g ''timestamp'' = map Time (instants (series g ''timestamp''))"
proof -
  have "map (\<lambda>r. get_val r ''timestamp'') rs
      = map Time (instants (map (\<lambda>r. get_val r ''timestamp'') rs))"
    if "\<forall>r\<in>set rs. has_instant r" for rs
    using that
  proof (induction rs)
    case Nil
    show ?case by (simp add: instants_Nil)
  next
    case (Cons a rs)
    then obtain t where "get_val a ''timestamp'' = Time t"
      using has_instantD [of a] by auto
    with Cons show ?case by (simp add: instants_Time)
  qed
  with assms show ?thesis by (simp add: series_def)
qed

lemma instants_sorted_series:
  assumes "\<forall>r\<in>set (rows g). has_instant r"
  shows "instants (series (sort_values ''timestamp'' g) ''timestamp'')
      = sort (instants (series g ''timestamp''))"
proof -
  define time where "time = (\<lambda>r. case get_val r ''timestamp'' of Time t \<Rightarrow> t | _ \<Rightarrow> 0)"
  define key where "key = (\<lambda>r. val_key (get_val r ''timestamp''))"
  have i: "instants (map (\<lambda>r. get_val r ''timestamp'') rs) = map time rs"
    if "\<forall>r\<in>set rs. has_instant r" for rs
    using that
  proof (induction rs)
    case Nil
    show ?case by (simp add: instants_Nil)
  next
    case (Cons a rs)
    then obtain t where "get_val a ''timestamp'' = Time t"
      using has_instantD [of a] by auto
    with Cons show ?case by (simp add: instants_Time time_def)
  qed
  have k: "key r \<le> key r' \<longleftrightarrow> time r \<le> time r'" if "has_instant r" "has_instant r'" for r r'
    using that by (auto simp: key_def time_def val_key_def has_instant_def split: val.splits)
  define xs where "xs = sort_key key (rows g)"
  have sx: "set xs = set (rows g)" and mx: "mset xs = mset (rows g)"
    by (simp_all add: xs_def)
  have "sorted (map key xs)"
    by (simp add: xs_def)
  then have st: "sorted (map time xs)"
    using assms k unfolding sx [symmetric]
    by (induction xs) auto
  have "mset (map time xs) = mset (map time (rows g))"
    by (simp add: mx)
  then have "sort (map time (rows g)) = map time xs"
    using st by (rule properties_for_sort)
  moreover have "instants (series (sort_values ''timestamp'' g) ''timestamp'') = map time xs"
    using assms by (simp add: series_def sort_values_def key_def [symmetric] xs_def [symmetric] i sx)
  moreover have "instants (series g ''timestamp'') = map time (rows g)"
    using assms by (simp add: series_def i)
  ultimately show ?thesis by simp
qed

lemma clipped_diff_of_instants:
  "clip_lower 0 (diff_seconds (map Time us))
    = (case us of [] \<Rightarrow> [] | u # us' \<Rightarrow> NaN # map Num (successive_deltas us))"
proof (cases us)
  case Nil
  then show ?thesis by (simp add: diff_seconds_def clip_lower_def)
next
  case (Cons u us')
  have "map2 delta (map Time ys) (map Time xs)
      = map Num (map2 (\<lambda>earlier later. later - earlier) xs ys)" for xs ys
    by (induction xs ys rule: list_induct2') (simp_all add: delta_def)
  then have "clip_lower 0 (map2 delta (map Time ys) (map Time xs))
      = map Num (map2 (\<lambda>earlier later. max 0 (later - earlier)) xs ys)" for xs ys
    by (simp add: clip_lower_def zip_map_map comp_def case_prod_unfold)
  from this [of us' "u # us'"] show ?thesis
    by (simp add: Cons diff_seconds_def clip_lower_def successive_deltas_def)
qed

lemma count_true_gt_Num:
  "count_true (gt (map Num ds) threshold) = length (filter (\<lambda>d. threshold < d) ds)"
  by (induction ds) (simp_all add: count_true_def gt_def)

lemma count_gaps:
  "count_true (gt (clip_lower 0 (diff_seconds (map Time us))) threshold)
    = length (filter (\<lambda>d. threshold < d) (successive_deltas us))"
proof (cases us)
  case Nil
  then show ?thesis
    by (simp add: diff_seconds_def clip_lower_def count_true_def gt_def successive_deltas_def)
next
  case (Cons u us')
  have "clip_lower 0 (diff_seconds (map Time us)) = NaN # map Num (successive_deltas us)"
    unfolding clipped_diff_of_instants by (simp add: Cons)
  moreover have "count_true (gt (NaN # s) threshold) = count_true (gt s threshold)" for s
    by (simp add: count_true_def gt_def)
  ultimately show ?thesis
    by (simp only: count_true_gt_Num)
qed

text \<open>
  C9. For every row of the trip metrics of the time-series path, \<open>gap_count\<close> is the
  number of deltas between successive instants of that trip, taken in ascending order
  and clipped at zero, that exceed the threshold of 300 seconds strictly; every row of
  the trip in the cleaned frame carries an instant, so none is left out of the count.
\<close>

theorem gap_count_counts_gaps:
  assumes "time_series_path pd chunks = Inr out"
    and "m \<in> set (rows (trip_metrics_csv out))"
  shows "get_val m ''gap_count''
      = Num (of_nat (spec_gap_count GAP_THRESHOLD_SEC
          (instants (trip_timestamps (cleaned_telematics out) (get_val m ''trip_id'')))))
    \<and> trip_timestamps (cleaned_telematics out) (get_val m ''trip_id'')
      = map Time (instants (trip_timestamps (cleaned_telematics out) (get_val m ''trip_id'')))"
proof -
  let ?df = "cleaned_telematics out"
  obtain k where m: "m = trip_metrics k (select (map (\<lambda>v. v = k) (series ?df ''trip_id'')) ?df)"
    using metrics_row_of_group [OF assms] by blast
  define g where "g = select (map (\<lambda>v. v = k) (series ?df ''trip_id'')) ?df"
  have k: "get_val m ''trip_id'' = k"
    by (simp add: m trip_id_of_trip_metrics)
  have "set (rows g) \<subseteq> set (rows ?df)"
    by (auto simp: g_def select_def dest: set_zip_rightD)
  then have inst: "\<forall>r\<in>set (rows g). has_instant r"
    using cleaned_has_instant [OF assms(1)] by blast
  have tt: "trip_timestamps ?df k = series g ''timestamp''"
    by (simp add: trip_timestamps_def g_def)
  have sg: "\<forall>r\<in>set (rows (sort_values ''timestamp'' g)). has_instant r"
    using inst by (simp add: sort_values_def)
  have "get_val m ''gap_count''
      = Num (of_nat (count_true (gt (clip_lower 0
          (diff_seconds (series (sort_values ''timestamp'' g) ''timestamp''))) GAP_THRESHOLD_SEC)))"
    by (simp add: m g_def gap_count_of_trip_metrics)
  also have "series (sort_values ''timestamp'' g) ''timestamp''
      = map Time (sort (instants (series g ''timestamp'')))"
    using series_of_instants [OF sg] by (simp add: instants_sorted_series [OF inst])
  finally have "get_val m ''gap_count''
      = Num (of_nat (spec_gap_count GAP_THRESHOLD_SEC (instants (series g ''timestamp''))))"
    by (simp add: count_gaps spec_gap_count_def)
  moreover have "series g ''timestamp'' = map Time (instants (series g ''timestamp''))"
    using inst by (rule series_of_instants)
  ultimately show ?thesis
    unfolding k tt by simp
qed

theorem gap_count_counts_gaps_witness:
  "\<exists>out m. time_series_path sample_pandas [mk_frame scenario_header (two_samples 50 60)] = Inr out
    \<and> rows (trip_metrics_csv out) = [m]
    \<and> get_val m ''trip_id'' = Str ''A''
    \<and> get_val m ''gap_count'' = Num 1
    \<and> get_val m ''gap_count''
      = Num (of_nat (spec_gap_count GAP_THRESHOLD_SEC
          (instants (trip_timestamps (cleaned_telematics out) (get_val m ''trip_id'')))))
    \<and> trip_timestamps (cleaned_telematics out) (get_val m ''trip_id'')
      = map Time (instants (trip_timestamps (cleaned_telematics out) (get_val m ''trip_id'')))"
proof -
  let ?run = "time_series_path sample_pandas [mk_frame scenario_header (two_samples 50 60)]"
  have r: "metrics_rows ?run =
    [[(''trip_id'', Str ''A''), (''rows'', Num 2), (''duration_minutes'', Num 10),
      (''gap_count'', Num 1), (''max_speed'', Num 60), (''avg_speed'', Num 55),
      (''distance_km'', Num 10), (''max_motor_temp'', NaN), (''max_cell_temp'', NaN),
      (''min_battery_voltage'', NaN), (''max_current'', NaN)]]"
    using two_samples_metrics [of 50 60] by (simp add: two_samples_raw_path)
  then obtain out where out: "?run = Inr out"
    by (cases ?run) (simp_all add: metrics_rows_def)
  define m :: row where "m = [(''trip_id'', Str ''A''), (''rows'', Num 2),
      (''duration_minutes'', Num 10), (''gap_count'', Num 1), (''max_speed'', Num 60),
      (''avg_speed'', Num 55), (''distance_km'', Num 10), (''max_motor_temp'', NaN),
      (''max_cell_temp'', NaN), (''min_battery_voltage'', NaN), (''max_current'', NaN)]"
  have rows: "rows (trip_metrics_csv out) = [m]"
    using r by (simp add: out metrics_rows_def m_def)
  then have mem: "m \<in> set (rows (trip_metrics_csv out))"
    by simp
  have g: "get_val m ''trip_id'' = Str ''A''" "get_val m ''gap_count'' = Num 1"
    by (simp_all add: m_def get_val_def)
  from gap_count_counts_gaps [OF out mem] out rows g show ?thesis
    by blast
qed

section \<open>Rows of the trip-level path\<close>

lemma columns_read_chunk: "columns (read_chunk pd header k lines) = header"
  by (simp add: read_chunk_def mk_frame_def)

lemma rows_select_series:
  "rows (select (map p (series df c)) df) = filter (\<lambda>r. p (get_val r c)) (rows df)"
proof -
  have "map snd (filter fst (zip (map p (map (\<lambda>r. get_val r c) xs)) xs))
      = filter (\<lambda>r. p (get_val r c)) xs" for xs :: "row list"
    by (induction xs) auto
  then show ?thesis by (simp add: select_def series_def)
qed

text \<open>Normalising the chunks one by one and putting them together is normalising the
  frame of all chunks.\<close>

lemma concat_frames_normalize:
  "concat_frames (normalize_columns c # map normalize_columns cs)
    = normalize_columns (concat_frames (c # cs))"
proof (rule frame_eqI)
  show "columns (concat_frames (normalize_columns c # map normalize_columns cs))
      = columns (normalize_columns (concat_frames (c # cs)))"
    by (simp add: concat_frames_def normalize_columns_def rename_columns_def)
  have "concat (map rows (map normalize_columns fs))
      = map (map (\<lambda>(k, v). (lower (strip k), v))) (concat (map rows fs))" for fs
    by (induction fs) (simp_all add: normalize_columns_def rename_columns_def)
  from this [of "c # cs"]
  show "rows (concat_frames (normalize_columns c # map normalize_columns cs))
      = rows (normalize_columns (concat_frames (c # cs)))"
    by (simp add: concat_frames_def normalize_columns_def rename_columns_def)
qed

lemma trip_level_path_metrics:
  assumes "trip_level_path (normalize_columns c) cs = Inr out"
  shows "columns (trip_metrics_csv out) = trip_level_metrics_columns"
    and "series (trip_metrics_csv out) ''trip_id''
      = filter (\<lambda>v. v \<noteq> NaN) (series (resolved (concat_frames (c # cs))) ''trip_id'')"
    and "length (rows (trip_metrics_csv out))
      = length (filter (\<lambda>v. v \<noteq> NaN) (series (resolved (concat_frames (c # cs))) ''trip_id''))"
    and "rows (cleaned_telematics out)
      = filter (\<lambda>r. get_val r ''trip_id'' \<noteq> NaN) (rows (resolved (concat_frames (c # cs))))"
proof -
  let ?df = "resolved (concat_frames (c # cs))"
  define df' where "df' = select (notna (series ?df ''trip_id'')) ?df"
  have c: "resolve_columns (concat_frames (normalize_columns c # map normalize_columns cs)) = ?df"
    by (simp only: concat_frames_normalize resolved_def)
  have out: "trip_metrics_csv out = DataFrame_of_columns (length (rows df'))
               [(''trip_id'', Some (series df' ''trip_id'')),
                (''duration_minutes'', df_get df' ''duration_minutes''),
                (''avg_speed'', df_get df' ''speed_avg''),
                (''distance_km'', df_get df' ''distance_km''),
                (''max_speed'', df_get df' ''speed_max''),
                (''max_motor_temp'', df_get df' ''motor_temp_max''),
                (''max_cell_temp'', df_get df' ''cell_temp_max''),
                (''energy_consumed_kwh'', df_get df' ''energy_consumed_kwh'')]"
    and cl: "cleaned_telematics out = df'"
    using assms unfolding trip_level_path_def c Let_def df'_def
    by (auto split: if_splits)
  have r: "rows df' = filter (\<lambda>r. get_val r ''trip_id'' \<noteq> NaN) (rows ?df)"
    unfolding df'_def notna_def by (rule rows_select_series)
  show "columns (trip_metrics_csv out) = trip_level_metrics_columns"
    by (simp add: out DataFrame_of_columns_def trip_level_metrics_columns_def)
  have "series (trip_metrics_csv out) ''trip_id''
      = map (\<lambda>i. series df' ''trip_id'' ! i) [0..<length (rows df')]"
    by (simp add: out DataFrame_of_columns_def series_def get_val_def)
  also have "\<dots> = series df' ''trip_id''"
    by (metis length_map map_nth series_def)
  also have "\<dots> = filter (\<lambda>v. v \<noteq> NaN) (series ?df ''trip_id'')"
    by (simp add: series_def r filter_map comp_def)
  finally show s: "series (trip_metrics_csv out) ''trip_id''
      = filter (\<lambda>v. v \<noteq> NaN) (series ?df ''trip_id'')" .
  have "length (rows (trip_metrics_csv out)) = length (series (trip_metrics_csv out) ''trip_id'')"
    by (simp add: series_def)
  then show "length (rows (trip_metrics_csv out))
      = length (filter (\<lambda>v. v \<noteq> NaN) (series ?df ''trip_id''))"
    by (simp only: s)
  show "rows (cleaned_telematics out) = filter (\<lambda>r. get_val r ''trip_id'' \<noteq> NaN) (rows ?df)"
    by (simp add: cl r)
qed

text \<open>A run on the trip-level path that reaches the end went through \<open>trip_level_path\<close>
  with the chunks as the reader hands them out.\<close>

lemma process_data_trip_level:
  assumes "process_data pd header lines n = Inr out" "trip_level_input header"
  shows "\<exists>c cs. map (read_chunk pd header (leading header lines)) (chunks_of n lines) = c # cs
      \<and> trip_level_path (normalize_columns c) cs = Inr out"
proof -
  let ?reader = "map (read_chunk pd header (leading header lines)) (chunks_of n lines)"
  from assms(1) have r: "read_csv pd header lines n = Inr ?reader"
    by (auto simp: process_data_def read_csv_def Let_def split: if_splits)
  obtain c cs where cs: "?reader = c # cs"
    using chunks_of_nonempty [of n lines] by (cases ?reader) auto
  then have "c \<in> set ?reader"
    by simp
  then have "columns c = header"
    by (auto simp: columns_read_chunk)
  then have "is_trip_level_schema (normalize_columns c)"
    using assms(2)
    by (simp add: trip_level_input_def is_trip_level_schema_def normalize_columns_def
        rename_columns_def mk_frame_def)
  with assms(1) have "trip_level_path (normalize_columns c) cs = Inr out"
    by (simp add: process_data_def r cs)
  with cs show ?thesis
    by (intro exI [of _ c] exI [of _ cs] conjI)
qed

lemma normalize_trip_level:
  "lower (strip ''trip_id'') = ''trip_id''" "lower (strip ''distance_km'') = ''distance_km''"
  by (simp_all add: lower_def strip_def is_space_def lower_char_def)

lemma rename_trip_level:
  "rename (rename_map [''trip_id'', ''distance_km'']) ''trip_id'' = ''trip_id''"
  "rename (rename_map [''trip_id'', ''distance_km'']) ''distance_km'' = ''distance_km''"
  by (simp_all add: rename_map_def rename_def COLUMN_ALIASES_def)

lemma resolved_trip_level:
  assumes "list_all (\<lambda>l. length l = 2) lines"
  shows "resolved (mk_frame trip_level_header lines) =
    \<lparr>columns = [''trip_id'', ''distance_km''],
     rows = map (\<lambda>l. [(''trip_id'', l ! 0), (''distance_km'', l ! 1)]) lines\<rparr>"
proof -
  have "map (\<lambda>(k, v). (rename (rename_map [''trip_id'', ''distance_km'']) (lower (strip k)), v))
        (line_row trip_level_header l) = [(''trip_id'', l ! 0), (''distance_km'', l ! 1)]"
    if "length l = 2" for l
  proof -
    from that obtain x y where "l = [x, y]"
      by (cases l; cases "tl l") auto
    then show ?thesis
      by (simp add: line_row_def trip_level_header_def normalize_trip_level rename_trip_level)
  qed
  then have "map (\<lambda>l. map (\<lambda>(k, v).
        (rename (rename_map [''trip_id'', ''distance_km'']) (lower (strip k)), v))
        (line_row trip_level_header l)) lines
      = map (\<lambda>l. [(''trip_id'', l ! 0), (''distance_km'', l ! 1)]) lines"
    using assms by (intro map_cong refl) (simp add: list_all_iff)
  then show ?thesis
    by (simp add: resolved_def resolve_columns_def normalize_columns_def rename_columns_def
        mk_frame_def trip_level_header_def normalize_trip_level rename_trip_level comp_def
        case_prod_unfold)
qed

text \<open>The example files of the trip-level path: two fields per line, read in one chunk.\<close>

lemma trip_level_run:
  assumes "list_all (\<lambda>l. length l = 2) lines" "length lines \<le> CHUNK_SIZE"
  shows "\<exists>out. process_data sample_pandas trip_level_header lines CHUNK_SIZE = Inr out"
    and "trip_level_input trip_level_header"
    and "frame_read sample_pandas trip_level_header lines CHUNK_SIZE
      = mk_frame trip_level_header lines"
proof -
  let ?F = "mk_frame trip_level_header lines"
  show t: "trip_level_input trip_level_header"
    by (simp add: trip_level_input_def is_trip_level_schema_def columns_normalize_mk_frame
        trip_level_header_def normalize_trip_level trip_level_signals_def)
  have p: "list_all (\<lambda>l. length l \<le> length trip_level_header) lines"
    using assms(1) by (auto simp: list_all_iff trip_level_header_def)
  have c: "resolve_columns (concat_frames (normalize_columns ?F # map normalize_columns [])) = resolved ?F"
    by (simp add: concat_frames_single resolved_def)
  have cols: "columns (resolved ?F) = [''trip_id'', ''distance_km'']"
    by (simp add: resolved_trip_level [OF assms(1)])
  have "\<exists>out. trip_level_path (normalize_columns ?F) [] = Inr out"
    unfolding trip_level_path_def c Let_def
    by (simp add: cols duplicated_def trip_level_reads_def)
  moreover have "is_trip_level_schema (normalize_columns ?F)"
    using t by (simp add: trip_level_input_def is_trip_level_schema_def columns_normalize_mk_frame)
  moreover have "0 < CHUNK_SIZE" "trip_level_header \<noteq> []"
    by (simp_all add: CHUNK_SIZE_def trip_level_header_def)
  ultimately show "\<exists>out. process_data sample_pandas trip_level_header lines CHUNK_SIZE = Inr out"
    using p by (simp add: sample_run)
  show "frame_read sample_pandas trip_level_header lines CHUNK_SIZE = ?F"
    unfolding frame_read_def chunks_of_single [OF assms(2)] leading_short [OF p] sample_pandas_def
    by (simp add: read_chunk_as_written [OF p] concat_frames_single)
qed

text \<open>
  C4 (as stated: one metrics row per distinct \<open>trip_id\<close>, \<open>trip_id\<close> unique). The
  trip-level path copies the columns of the filtered frame row by row and does not
  group: a file with two rows of trip \<open>A\<close> gives two metrics rows of trip \<open>A\<close>.
\<close>

theorem trip_level_unique_counterexample:
  "completes (process_data sample_pandas trip_level_header repeated_trip CHUNK_SIZE)
   \<and> series (metrics_frame (process_data sample_pandas trip_level_header repeated_trip CHUNK_SIZE))
        ''trip_id'' = [Str ''A'', Str ''A'']
   \<and> \<not> distinct (series (metrics_frame
        (process_data sample_pandas trip_level_header repeated_trip CHUNK_SIZE)) ''trip_id'')"
proof -
  have l: "list_all (\<lambda>l. length l = 2) repeated_trip" "length repeated_trip \<le> CHUNK_SIZE"
    by (simp_all add: repeated_trip_def CHUNK_SIZE_def)
  obtain out where out: "process_data sample_pandas trip_level_header repeated_trip CHUNK_SIZE = Inr out"
    using trip_level_run(1) [OF l] by blast
  obtain c cs where cs: "map (read_chunk sample_pandas trip_level_header
        (leading trip_level_header repeated_trip)) (chunks_of CHUNK_SIZE repeated_trip) = c # cs"
    and p: "trip_level_path (normalize_columns c) cs = Inr out"
    using process_data_trip_level [OF out trip_level_run(2) [OF l]] by auto
  have f: "concat_frames (c # cs) = mk_frame trip_level_header repeated_trip"
    using trip_level_run(3) [OF l] by (simp add: frame_read_def cs)
  have "series (trip_metrics_csv out) ''trip_id'' = [Str ''A'', Str ''A'']"
    unfolding trip_level_path_metrics(2) [OF p] f resolved_trip_level [OF l(1)]
    by (simp add: series_def repeated_trip_def get_val_def)
  then show ?thesis
    by (simp add: out completes_def metrics_frame_def)
qed

text \<open>
  C4 (amended). On the trip-level path, rows with a missing \<open>trip_id\<close> are dropped and
  the trip metrics frame has one row per remaining input row, in input order: its
  \<open>trip_id\<close> column is the \<open>trip_id\<close> column of the resolved input, as the reader hands
  it out, without the missing values. So \<open>trip_id\<close> is unique in the metrics exactly
  when no \<open>trip_id\<close> occurs twice among the input rows that have one.
\<close>

theorem trip_level_row_per_input_row:
  assumes "process_data pd header lines n = Inr out"
    and "trip_level_input header"
  shows "rows (cleaned_telematics out)
      = filter (\<lambda>r. get_val r ''trip_id'' \<noteq> NaN)
          (rows (resolved (frame_read pd header lines n)))
    \<and> series (trip_metrics_csv out) ''trip_id''
      = filter (\<lambda>v. v \<noteq> NaN) (series (resolved (frame_read pd header lines n)) ''trip_id'')
    \<and> length (rows (trip_metrics_csv out))
      = length (filter (\<lambda>v. v \<noteq> NaN)
          (series (resolved (frame_read pd header lines n)) ''trip_id''))
    \<and> (distinct (series (trip_metrics_csv out) ''trip_id'') \<longleftrightarrow>
        distinct (filter (\<lambda>v. v \<noteq> NaN)
          (series (resolved (frame_read pd header lines n)) ''trip_id'')))"
proof -
  obtain c cs where cs: "map (read_chunk pd header (leading header lines)) (chunks_of n lines)
      = c # cs"
    and p: "trip_level_path (normalize_columns c) cs = Inr out"
    using process_data_trip_level [OF assms] by auto
  have f: "frame_read pd header lines n = concat_frames (c # cs)"
    by (simp add: frame_read_def cs)
  note m = trip_level_path_metrics [OF p, folded f]
  show ?thesis
    using m(3) m(4) by (simp add: m(2))
qed

theorem trip_level_row_per_input_row_witness:
  "\<exists>out. process_data sample_pandas trip_level_header nameless_trip CHUNK_SIZE = Inr out
    \<and> trip_level_input trip_level_header
    \<and> series (resolved (frame_read sample_pandas trip_level_header nameless_trip CHUNK_SIZE))
          ''trip_id''
        = [Str ''A'', NaN, Str ''B'']
    \<and> rows (cleaned_telematics out)
      = filter (\<lambda>r. get_val r ''trip_id'' \<noteq> NaN)
          (rows (resolved (frame_read sample_pandas trip_level_header nameless_trip CHUNK_SIZE)))
    \<and> series (trip_metrics_csv out) ''trip_id'' = [Str ''A'', Str ''B'']
    \<and> length (rows (trip_metrics_csv out)) = 2
    \<and> distinct (series (trip_metrics_csv out) ''trip_id'')"
proof -
  have l: "list_all (\<lambda>l. length l = 2) nameless_trip" "length nameless_trip \<le> CHUNK_SIZE"
    by (simp_all add: nameless_trip_def CHUNK_SIZE_def)
  obtain out where out: "process_data sample_pandas trip_level_header nameless_trip CHUNK_SIZE = Inr out"
    using trip_level_run(1) [OF l] by blast
  have s: "series (resolved (frame_read sample_pandas trip_level_header nameless_trip CHUNK_SIZE))
        ''trip_id''
      = [Str ''A'', NaN, Str ''B'']"
    unfolding trip_level_run(3) [OF l] resolved_trip_level [OF l(1)]
    by (simp add: series_def nameless_trip_def get_val_def)
  from trip_level_row_per_input_row [OF out trip_level_run(2) [OF l]] out
    trip_level_run(2) [OF l] s
  show ?thesis
    by simp
qed

section \<open>Columns of the trip metrics\<close>

lemma metrics_frame_of_rows:
  assumes "time_series_path pd chunks = Inr out"
  shows "trip_metrics_csv out = DataFrame (rows (trip_metrics_csv out))"
  using assms
  by (auto simp: time_series_path_def Let_def DataFrame_def split: sum.splits)

text \<open>
  C5. The time-series path builds the trip metrics from a list of dictionaries, one per
  trip, and the names of the columns come from the first dictionary. With one data line
  whose \<open>trip_id\<close> is empty the row is rejected, the cleaned frame has no rows,
  \<open>metrics\<close> stays the empty list, and \<open>pd.DataFrame([])\<close> is a frame without any
  column: the run reaches the end and writes trip metrics that have no \<open>trip_id\<close>
  column, nor any other of the five. The same path writes them when the cleaned frame
  has a row, and the trip-level path names its columns itself and writes them also when
  no row is left: an aggregated file whose only row has no \<open>trip_id\<close> gives trip
  metrics without rows that have all five columns.
\<close>

theorem metrics_columns_lost_on_empty_run:
  "completes (process_data sample_pandas scenario_header anonymous_sample CHUNK_SIZE)
   \<and> rows (cleaned_frame (process_data sample_pandas scenario_header anonymous_sample CHUNK_SIZE))
      = []
   \<and> columns (metrics_frame (process_data sample_pandas scenario_header anonymous_sample CHUNK_SIZE))
      = []
   \<and> ''trip_id'' \<notin> set (columns (metrics_frame
        (process_data sample_pandas scenario_header anonymous_sample CHUNK_SIZE)))
   \<and> set contract_columns \<subseteq> set (columns (metrics_frame
        (process_data sample_pandas scenario_header (two_samples 50 60) CHUNK_SIZE)))
   \<and> completes (process_data sample_pandas trip_level_header nameless_only CHUNK_SIZE)
   \<and> rows (metrics_frame (process_data sample_pandas trip_level_header nameless_only CHUNK_SIZE))
      = []
   \<and> columns (metrics_frame (process_data sample_pandas trip_level_header nameless_only CHUNK_SIZE))
      = trip_level_metrics_columns
   \<and> set contract_columns \<subseteq> set (columns (metrics_frame
        (process_data sample_pandas trip_level_header nameless_only CHUNK_SIZE)))"
proof -
  let ?pd = sample_pandas
  let ?h = "[''trip_id'', ''timestamp'', ''speed_kmph'']"
  let ?F = "mk_frame scenario_header anonymous_sample"
  define r0 :: row where "r0 = [(''trip_id'', NaN),
      (''timestamp'', Str ''1970-01-01 00:00:00''), (''speed_kmph'', Num 50)]"
  define ts where "ts = timestamps_of \<lparr>columns = ?h, rows = [r0]\<rparr>"
  define a where "a = classify_row ?pd ts ?h r0"
  define C where "C = classify_columns ?h"
  have res: "resolved ?F = \<lparr>columns = ?h, rows = [r0]\<rparr>"
    by (simp add: resolved_def resolve_columns_def normalize_columns_def rename_columns_def
      mk_frame_def line_row_def scenario_header_def anonymous_sample_def normalize_scenario
      rename_scenario r0_def)
  have abs: "absent_is_na ?h r0"
    by (simp add: absent_is_na_def REQUIRED_COLUMNS_def r0_def get_val_def)
  note fa = classify_row_fields [OF abs, where pd = ?pd and ts = ts, folded a_def]
  have "expected_reasons ?pd ts r0 \<noteq> []"
    by (simp add: expected_reasons_def r0_def get_val_def)
  then have rej: "is_rejected a"
    by (simp add: is_rejected_def fa(5))
  have dup: "\<not> duplicated ?h selected"
    by (simp add: duplicated_def selected_def REQUIRED_COLUMNS_def)
  have "validate_chunk ?pd ?F =
      Inr \<lparr>classified = \<lparr>columns = C, rows = [a]\<rparr>,
            valid_part = \<lparr>columns = C, rows = []\<rparr>,
            rejected_part = \<lparr>columns = C, rows = [a]\<rparr>\<rparr>"
    unfolding validate_chunk_rows resolved_def [symmetric] res
    by (simp add: Let_def dup rej ts_def [symmetric] a_def [symmetric] C_def [symmetric])
  then have run: "time_series_path ?pd [?F] =
      Inr \<lparr>cleaned_telematics = \<lparr>columns = C, rows = []\<rparr>,
            rejected_telematics = Some \<lparr>columns = C, rows = [a]\<rparr>,
            trip_metrics_csv = \<lparr>columns = [], rows = []\<rparr>\<rparr>"
    by (simp add: time_series_path_def concat_frames_single Let_def aggregate_def
        frame_empty_def DataFrame_def)
  have "\<not> is_trip_level_schema (normalize_columns ?F)"
    by (simp add: is_trip_level_schema_def columns_normalize_mk_frame scenario_header_def
        normalize_scenario trip_level_signals_def)
  then have "process_data ?pd scenario_header anonymous_sample CHUNK_SIZE
      = time_series_path ?pd [?F]"
    by (simp add: sample_run CHUNK_SIZE_def scenario_header_def anonymous_sample_def)
  then have empty: "completes (process_data ?pd scenario_header anonymous_sample CHUNK_SIZE)"
    "rows (cleaned_frame (process_data ?pd scenario_header anonymous_sample CHUNK_SIZE)) = []"
    "columns (metrics_frame (process_data ?pd scenario_header anonymous_sample CHUNK_SIZE)) = []"
    by (simp_all add: run completes_def metrics_frame_def cleaned_frame_def)
  let ?run = "process_data ?pd scenario_header (two_samples 50 60) CHUNK_SIZE"
  have mr: "metrics_rows ?run =
    [[(''trip_id'', Str ''A''), (''rows'', Num 2), (''duration_minutes'', Num 10),
      (''gap_count'', Num 1), (''max_speed'', Num (max 60 50)), (''avg_speed'', Num ((50 + 60) / 2)),
      (''distance_km'', Num (60 * 600 / 3600)), (''max_motor_temp'', NaN),
      (''max_cell_temp'', NaN), (''min_battery_voltage'', NaN), (''max_current'', NaN)]]"
    by (rule two_samples_metrics) simp_all
  then obtain out' where out': "?run = Inr out'"
    by (cases ?run) (simp_all add: metrics_rows_def)
  have "trip_metrics_csv out' = DataFrame (rows (trip_metrics_csv out'))"
    using out' by (intro metrics_frame_of_rows [of ?pd]) (simp add: two_samples_raw_path)
  with mr have full: "set contract_columns \<subseteq> set (columns (metrics_frame ?run))"
    by (simp add: out' metrics_rows_def metrics_frame_def DataFrame_def contract_columns_def)
  have l: "list_all (\<lambda>l. length l = 2) nameless_only" "length nameless_only \<le> CHUNK_SIZE"
    by (simp_all add: nameless_only_def CHUNK_SIZE_def)
  obtain out where out: "process_data ?pd trip_level_header nameless_only CHUNK_SIZE = Inr out"
    using trip_level_run(1) [OF l] by blast
  obtain c cs where cs: "map (read_chunk ?pd trip_level_header
        (leading trip_level_header nameless_only)) (chunks_of CHUNK_SIZE nameless_only) = c # cs"
    and p: "trip_level_path (normalize_columns c) cs = Inr out"
    using process_data_trip_level [OF out trip_level_run(2) [OF l]] by auto
  have f: "concat_frames (c # cs) = mk_frame trip_level_header nameless_only"
    using trip_level_run(3) [OF l] by (simp add: frame_read_def cs)
  have "length (rows (trip_metrics_csv out)) = 0"
    unfolding trip_level_path_metrics(3) [OF p] f resolved_trip_level [OF l(1)]
    by (simp add: series_def nameless_only_def get_val_def)
  then have sibling: "completes (process_data ?pd trip_level_header nameless_only CHUNK_SIZE)"
    "rows (metrics_frame (process_data ?pd trip_level_header nameless_only CHUNK_SIZE)) = []"
    "columns (metrics_frame (process_data ?pd trip_level_header nameless_only CHUNK_SIZE))
      = trip_level_metrics_columns"
    by (simp_all add: out completes_def metrics_frame_def trip_level_path_metrics(1) [OF p])
  have "set contract_columns \<subseteq> set trip_level_metrics_columns"
    by (simp add: contract_columns_def trip_level_metrics_columns_def)
  with empty full sibling show ?thesis
    by simp
qed

section \<open>The chunk size\<close>

















end
